theory Spec2Isabelle
  imports Complex_Main
begin

section \<open>Time\<close>

text \<open>
  A dayjs value is modelled by its local wall-clock reading in milliseconds, counted
  from local midnight of day 0. This is the time of a local zone whose offset from UTC
  is the same on all the dates a call looks at: there the wall clock and the elapsed
  time advance together. A date on which the local clock is set forward or back
  (daylight saving) is outside the model: on such a date two instants some minutes
  apart can have clock texts that are not, and nothing proved below speaks of it.
  A calendar date (the text \<open>YYYY-MM-DD\<close>) is the number of its day, and a clock text
  \<open>HH:mm\<close> produced by \<open>format\<close> is the number of minutes since midnight: on
  zero-padded clock texts the string order used by \<open>localeCompare\<close> and the order of the
  parsed times coincide with the order of these numbers.
\<close>

type_synonym instant = int

definition MS_PER_MINUTE :: int where
  "MS_PER_MINUTE = 60000"

definition MS_PER_HOUR :: int where
  "MS_PER_HOUR = 3600000"

definition MS_PER_DAY :: int where
  "MS_PER_DAY = 86400000"

text \<open>\<open>d.format('YYYY-MM-DD')\<close>: the day an instant lies on.\<close>

definition dayOf :: "instant \<Rightarrow> int" where
  "dayOf t = t div MS_PER_DAY"

text \<open>\<open>dayjs(dateStr)\<close> and \<open>dayjs(dateStr).startOf('day')\<close>: local midnight of a date.\<close>

definition startOfDay :: "int \<Rightarrow> instant" where
  "startOfDay d = d * MS_PER_DAY"

text \<open>\<open>d.format('HH:mm')\<close>: hours and minutes of the time of day, seconds dropped (in a
  zone of fixed offset, see above).\<close>

definition formatHHmm :: "instant \<Rightarrow> nat" where
  "formatHHmm t = nat ((t mod MS_PER_DAY) div MS_PER_MINUTE)"

text \<open>\<open>a.diff(b, 'minute')\<close>: the difference in whole minutes, truncated towards zero.\<close>

definition diffMinutes :: "instant \<Rightarrow> instant \<Rightarrow> int" where
  "diffMinutes a b =
     (let d = a - b in if d < 0 then - ((- d) div MS_PER_MINUTE) else d div MS_PER_MINUTE)"

section \<open>Constants (config/constants.js)\<close>

definition BUFFER_TIME_MINUTES :: int where
  "BUFFER_TIME_MINUTES = 20"

definition CORE_TIME_START_HOUR :: int where
  "CORE_TIME_START_HOUR = 10"

definition CORE_TIME_END_HOUR :: int where
  "CORE_TIME_END_HOUR = 22"

definition MIN_SLOT_DURATION :: int where
  "MIN_SLOT_DURATION = 30"

section \<open>Data\<close>

text \<open>
  The \<open>dateTime\<close> text of an event is read in two ways by the code: its part before
  \<open>T\<close> is compared with the target date, and \<open>dayjs\<close> parses the whole text to an
  instant. The model keeps both readings; they need not agree (the text may carry
  another offset than the local zone).
\<close>

record dateTimeText =
  dtDate :: int
  dtInstant :: instant

text \<open>\<open>event.start\<close> / \<open>event.end\<close>: \<open>date\<close> for all-day events, \<open>dateTime\<close> for timed ones;
  \<open>None\<close> is a missing (or empty) field.\<close>

record timeRef =
  date :: "int option"
  dateTime :: "dateTimeText option"

text \<open>An element of \<open>items\<close> in a response: an event, or a calendar of the calendar
  list (which has an \<open>id\<close> and a \<open>summary\<close> and no \<open>start\<close> or \<open>end\<close>).\<close>

record event =
  ev_id :: string
  summary :: string
  ev_start :: "timeRef option"
  ev_end :: "timeRef option"

text \<open>A preferred time slot \<open>{ date, start, end }\<close> entered by the user; \<open>start\<close> and \<open>end\<close>
  are clock texts \<open>HH:mm\<close>.\<close>

record clockText =
  hour :: nat
  minute :: nat

record timeSlot =
  slot_date :: int
  slot_start :: clockText
  slot_end :: clockText

text \<open>\<open>VALIDATION_RULES.TIME.FORMAT\<close>: \<open>/^([01]?[0-9]|2[0-3]):[0-5][0-9]$/\<close>.\<close>

definition validTime :: "clockText \<Rightarrow> bool" where
  "validTime c = (hour c \<le> 23 \<and> minute c \<le> 59)"

text \<open>\<open>dayjs(`${date.format('YYYY-MM-DD')}T${clock}`)\<close>: the JavaScript date constructor adds
  the hours and minutes to local midnight, also when they are out of range.\<close>

definition atClock :: "instant \<Rightarrow> clockText \<Rightarrow> instant" where
  "atClock d c = startOfDay (dayOf d) + int (hour c) * MS_PER_HOUR + int (minute c) * MS_PER_MINUTE"

text \<open>\<open>date.hour(h).minute(0).second(0)\<close>: the milliseconds of \<open>date\<close> are kept.\<close>

definition atHour :: "instant \<Rightarrow> int \<Rightarrow> instant" where
  "atHour d h = startOfDay (dayOf d) + h * MS_PER_HOUR + d mod 1000"

record interval =
  istart :: instant
  iend :: instant

text \<open>A free slot \<open>{ startTime, endTime }\<close>; \<open>isContinuous\<close> is set by the merge
  (\<open>False\<close> stands for the absent field).\<close>

record freeSlot =
  startTime :: nat
  endTime :: nat
  isContinuous :: bool

text \<open>A day result; \<open>dateFormatted\<close>, the same date in display form, is left out.\<close>

record dayResult =
  dr_date :: int
  slots :: "freeSlot list"
  totalSlots :: nat
  totalMinutes :: int

text \<open>
  A parsed response body. The code reads \<open>error\<close>, \<open>error.message\<close> and \<open>items\<close> of it.
  \<open>json_error\<close> is \<open>None\<close> when \<open>error\<close> is absent or falsy. The value of \<open>error.message\<close>
  (\<open>None\<close> when it is absent or \<open>null\<close>) is a string, an array (which has a method
  \<open>includes\<close>: \<open>containsQuota\<close> is the answer of \<open>includes('quota')\<close>) or another value without
  that method (a number, a boolean, an object); \<open>shown\<close> is the text \<open>String(value)\<close> that
  the \<open>Error\<close> constructor makes of it, \<open>truthy\<close> its truth value.
\<close>

datatype messageValue =
  Text string
  | ArrayValue (containsQuota: bool) (shown: string)
  | OtherValue (truthy: bool) (shown: string)

record errorObject =
  err_message :: "messageValue option"

record json =
  json_error :: "errorObject option"
  items :: "event list option"

text \<open>What \<open>response.json()\<close> can resolve to: \<open>None\<close> is the JSON value \<open>null\<close>; a body that
  is a number, a string, a boolean or an array is read like an object without the
  fields above.\<close>

type_synonym jsonValue = "json option"

text \<open>\<open>class ApiError\<close> (apiService.js); the \<open>timestamp\<close> field is left out. A thrown value
  is an \<open>ApiError\<close> or a native error with its \<open>name\<close> and \<open>message\<close>.\<close>

record apiError =
  message :: string
  status :: "int option"
  response :: "json option"
  isRateLimit :: bool

datatype js_error =
  ApiError apiError
  | NativeError (name: string) (native_message: string)

section \<open>DateTimeUtils (App.js)\<close>

text \<open>\<open>generateDateRange\<close>: the loop variable \<open>currentDate\<close> is the first argument.\<close>

function generateDateRange :: "instant \<Rightarrow> instant \<Rightarrow> instant list" where
  "generateDateRange currentDate endDate =
     (if currentDate < endDate \<or> dayOf currentDate = dayOf endDate
      then currentDate # generateDateRange (currentDate + MS_PER_DAY) endDate
      else [])"
  by pat_completeness auto
termination
proof (relation "measure (\<lambda>(c, e). nat (dayOf e + 1 - dayOf c))")
  show "wf (measure (\<lambda>(c, e). nat (dayOf e + 1 - dayOf c)))"
    by simp
next
  fix currentDate endDate :: instant
  assume a: "currentDate < endDate \<or> dayOf currentDate = dayOf endDate"
  have le: "dayOf currentDate \<le> dayOf endDate"
    using a by (auto simp: dayOf_def MS_PER_DAY_def intro: zdiv_mono1)
  have step: "dayOf (currentDate + MS_PER_DAY) = dayOf currentDate + 1"
    by (simp add: dayOf_def MS_PER_DAY_def)
  show "((currentDate + MS_PER_DAY, endDate), (currentDate, endDate))
          \<in> measure (\<lambda>(c, e). nat (dayOf e + 1 - dayOf c))"
    using le step by simp
qed

declare generateDateRange.simps [simp del]

text \<open>The merge loop of \<open>mergeContinuousSlots\<close>: \<open>cur\<close> is \<open>currentSlot\<close>, the list is the
  rest of \<open>sortedSlots\<close>; a slot is pushed when the next one starts after its end.\<close>

fun mergeLoop :: "freeSlot \<Rightarrow> freeSlot list \<Rightarrow> freeSlot list" where
  "mergeLoop cur [] = [cur]"
| "mergeLoop cur (s # ss) =
     (if startTime s \<le> endTime cur
      then mergeLoop (cur\<lparr>endTime := (if endTime s < endTime cur then endTime cur else endTime s),
                          isContinuous := True\<rparr>) ss
      else cur # mergeLoop s ss)"

text \<open>\<open>[...slots].sort(...)\<close> is a stable sort by \<open>startTime\<close>.\<close>

definition mergeContinuousSlots :: "freeSlot list \<Rightarrow> freeSlot list" where
  "mergeContinuousSlots slotList =
     (case sort_key startTime slotList of
        [] \<Rightarrow> []
      | s # ss \<Rightarrow> mergeLoop s ss)"

section \<open>CalendarService: the availability calculation (App.js)\<close>

text \<open>The filter of \<open>calculateDayAvailableSlots\<close>: events of the target date.\<close>

definition onTargetDate :: "instant \<Rightarrow> event \<Rightarrow> bool" where
  "onTargetDate d e =
     (case ev_start e of
        None \<Rightarrow> False
      | Some s \<Rightarrow>
          (case date s of
             Some sd \<Rightarrow> sd = dayOf d
           | None \<Rightarrow>
               (case dateTime s of
                  Some dt \<Rightarrow> dtDate dt = dayOf d
                | None \<Rightarrow> False)))"

text \<open>\<open>dayjs(x.dateTime)\<close>: \<open>dayjs(undefined)\<close> is the current time \<open>now\<close>.\<close>

definition parseDateTime :: "instant \<Rightarrow> dateTimeText option \<Rightarrow> instant" where
  "parseDateTime now dt = (case dt of None \<Rightarrow> now | Some t \<Rightarrow> dtInstant t)"

text \<open>
  The map of \<open>calculateDayAvailableSlots\<close>: the busy interval of one event of the day.
  In the second branch \<open>event.start.dateTime\<close> and \<open>event.end.dateTime\<close> are read without
  \<open>?.\<close>: reading them raises a \<open>TypeError\<close> when \<open>event.start\<close> or \<open>event.end\<close> is
  missing (the events that passed the filter all have a \<open>start\<close>).
\<close>

definition startUndefinedError :: js_error where
  "startUndefinedError =
     NativeError ''TypeError'' ''Cannot read properties of undefined (reading 'dateTime')''"

definition endUndefinedError :: js_error where
  "endUndefinedError =
     NativeError ''TypeError'' ''Cannot read properties of undefined (reading 'dateTime')''"

definition toBusyInterval :: "instant \<Rightarrow> event \<Rightarrow> js_error + interval" where
  "toBusyInterval now e =
     (let sd = (case ev_start e of None \<Rightarrow> None | Some s \<Rightarrow> date s);
          ed = (case ev_end e of None \<Rightarrow> None | Some x \<Rightarrow> date x)
      in case (sd, ed) of
           (Some s, Some x) \<Rightarrow>
             Inr \<lparr>istart = startOfDay s, iend = startOfDay (x - 1) + (MS_PER_DAY - 1)\<rparr>
         | _ \<Rightarrow>
             (case ev_start e of
                None \<Rightarrow> Inl startUndefinedError
              | Some s \<Rightarrow>
                  (case ev_end e of
                     None \<Rightarrow> Inl endUndefinedError
                   | Some x \<Rightarrow>
                       Inr \<lparr>istart = parseDateTime now (dateTime s)
                                      - BUFFER_TIME_MINUTES * MS_PER_MINUTE,
                            iend = parseDateTime now (dateTime x)
                                      + BUFFER_TIME_MINUTES * MS_PER_MINUTE\<rparr>)))"

text \<open>\<open>Array.map\<close> with a callback that may raise: the first error aborts the map.\<close>

fun mapResult :: "('a \<Rightarrow> js_error + 'b) \<Rightarrow> 'a list \<Rightarrow> js_error + 'b list" where
  "mapResult f [] = Inr []"
| "mapResult f (x # xs) =
     (case f x of
        Inl err \<Rightarrow> Inl err
      | Inr y \<Rightarrow> (case mapResult f xs of Inl err \<Rightarrow> Inl err | Inr ys \<Rightarrow> Inr (y # ys)))"

text \<open>\<open>dayEvents\<close>: filter, map, then a stable sort by interval start.\<close>

definition dayEvents :: "instant \<Rightarrow> event list \<Rightarrow> instant \<Rightarrow> js_error + interval list" where
  "dayEvents now events d =
     (case mapResult (toBusyInterval now) (filter (onTargetDate d) events) of
        Inl err \<Rightarrow> Inl err
      | Inr ivs \<Rightarrow> Inr (sort_key istart ivs))"

text \<open>\<open>slotRanges\<close>: the preferred slots of the date, or else the core time.\<close>

definition slotRanges :: "instant \<Rightarrow> timeSlot list \<Rightarrow> interval list" where
  "slotRanges d slotsForDate =
     (if slotsForDate \<noteq> []
      then map (\<lambda>s. \<lparr>istart = atClock d (slot_start s), iend = atClock d (slot_end s)\<rparr>) slotsForDate
      else [\<lparr>istart = atHour d CORE_TIME_START_HOUR, iend = atHour d CORE_TIME_END_HOUR\<rparr>])"

definition mkSlot :: "instant \<Rightarrow> instant \<Rightarrow> freeSlot" where
  "mkSlot s e = \<lparr>startTime = formatHHmm s, endTime = formatHHmm e, isContinuous = False\<rparr>"

text \<open>
  One iteration of the inner loop \<open>for (const event of dayEvents)\<close> that reaches the
  gap test: \<open>gapBefore\<close> is what it pushes (the gap between \<open>currentTime\<close> and the
  event, cut at \<open>range.end\<close>, if it is long enough), \<open>advance\<close> is the new
  \<open>currentTime\<close>.
\<close>

definition gapBefore :: "instant \<Rightarrow> instant \<Rightarrow> interval \<Rightarrow> freeSlot list" where
  "gapBefore rangeEnd currentTime ev =
     (if currentTime < istart ev
      then (let slotEnd = (if istart ev < rangeEnd then istart ev else rangeEnd)
            in if MIN_SLOT_DURATION \<le> diffMinutes slotEnd currentTime
               then [mkSlot currentTime slotEnd] else [])
      else [])"

definition advance :: "instant \<Rightarrow> interval \<Rightarrow> instant" where
  "advance currentTime ev = (if currentTime < iend ev then iend ev else currentTime)"

text \<open>
  The inner loop for one range: the arguments are \<open>range.end\<close>, \<open>currentTime\<close> and the
  events not yet visited; it returns the final \<open>currentTime\<close> and the slots pushed, in
  order. The first test is the \<open>continue\<close>, the second and the last are the \<open>break\<close>s.
\<close>

fun sweepEvents :: "instant \<Rightarrow> instant \<Rightarrow> interval list \<Rightarrow> instant \<times> freeSlot list" where
  "sweepEvents rangeEnd currentTime [] = (currentTime, [])"
| "sweepEvents rangeEnd currentTime (ev # evs) =
     (if iend ev < currentTime then sweepEvents rangeEnd currentTime evs
      else if rangeEnd < istart ev then (currentTime, [])
      else if rangeEnd < advance currentTime ev
      then (advance currentTime ev, gapBefore rangeEnd currentTime ev)
      else (let (t, rest) = sweepEvents rangeEnd (advance currentTime ev) evs
            in (t, gapBefore rangeEnd currentTime ev @ rest)))"

text \<open>One pass of \<open>for (const range of slotRanges)\<close>: the sweep and the gap after the
  last event.\<close>

definition rangeSlots :: "interval list \<Rightarrow> interval \<Rightarrow> freeSlot list" where
  "rangeSlots evs rng =
     (let (currentTime, pushed) = sweepEvents (iend rng) (istart rng) evs
      in pushed @
         (if currentTime < iend rng \<and> MIN_SLOT_DURATION \<le> diffMinutes (iend rng) currentTime
          then [mkSlot currentTime (iend rng)] else []))"

definition calculateDayAvailableSlots ::
  "instant \<Rightarrow> event list \<Rightarrow> instant \<Rightarrow> timeSlot list \<Rightarrow> js_error + freeSlot list" where
  "calculateDayAvailableSlots now events d slotsForDate =
     (case dayEvents now events d of
        Inl err \<Rightarrow> Inl err
      | Inr evs \<Rightarrow> Inr (concat (map (rangeSlots evs) (slotRanges d slotsForDate))))"

text \<open>\<open>[...new Set(timeSlots.map(slot => slot.date))]\<close>: the distinct dates, each at its
  first occurrence.\<close>

definition uniqueDates :: "timeSlot list \<Rightarrow> int list" where
  "uniqueDates timeSlots = rev (remdups (rev (map slot_date timeSlots)))"

text \<open>The variable \<open>dates\<close> of \<open>calculateAvailableSlots\<close>: the dates the \<open>forEach\<close> visits.\<close>

definition targetDates :: "instant \<Rightarrow> instant \<Rightarrow> timeSlot list \<Rightarrow> instant list" where
  "targetDates startDate endDate timeSlots =
     (if 0 < length timeSlots
      then map startOfDay (uniqueDates timeSlots)
      else generateDateRange startDate endDate)"

definition slotMinutes :: "freeSlot \<Rightarrow> int" where
  "slotMinutes s = int (endTime s) - int (startTime s)"

text \<open>The body of \<open>dates.forEach\<close>: the day result pushed for one date, if any.\<close>

definition dayResultFor ::
  "instant \<Rightarrow> event list \<Rightarrow> timeSlot list \<Rightarrow> instant \<Rightarrow> js_error + dayResult list" where
  "dayResultFor now events timeSlots d =
     (let slotsForDate = filter (\<lambda>s. slot_date s = dayOf d) timeSlots
      in case calculateDayAvailableSlots now events d slotsForDate of
           Inl err \<Rightarrow> Inl err
         | Inr daySlots \<Rightarrow>
             (if 0 < length daySlots
              then (let mergedSlots = mergeContinuousSlots daySlots
                    in Inr [\<lparr>dr_date = dayOf d, slots = mergedSlots,
                             totalSlots = length mergedSlots,
                             totalMinutes = foldl (\<lambda>sum s. sum + slotMinutes s) 0 mergedSlots\<rparr>])
              else Inr []))"

text \<open>\<open>calculateAvailableSlots\<close>: an error raised for one date is logged and rethrown.\<close>

definition calculateAvailableSlots ::
  "instant \<Rightarrow> event list \<Rightarrow> instant \<Rightarrow> instant \<Rightarrow> timeSlot list \<Rightarrow> js_error + dayResult list" where
  "calculateAvailableSlots now events startDate endDate timeSlots =
     (case mapResult (dayResultFor now events timeSlots) (targetDates startDate endDate timeSlots) of
        Inl err \<Rightarrow> Inl err
      | Inr rs \<Rightarrow> Inr (concat rs))"

section \<open>Constants: API_CONSTANTS and ERROR_MESSAGES (config/constants.js)\<close>

definition MAX_RETRY_ATTEMPTS :: nat where
  "MAX_RETRY_ATTEMPTS = 3"

definition INITIAL_RETRY_DELAY_MS :: real where
  "INITIAL_RETRY_DELAY_MS = 1000"

definition MAX_RETRY_DELAY_MS :: real where
  "MAX_RETRY_DELAY_MS = 5000"

definition EXPONENTIAL_BACKOFF_MULTIPLIER :: real where
  "EXPONENTIAL_BACKOFF_MULTIPLIER = 2"

definition BATCH_SIZE :: nat where
  "BATCH_SIZE = 5"

text \<open>The message texts are Japanese; they are given as their UTF-8 bytes. A search for
  an ASCII pattern (\<open>includes\<close>) gives the same answer on the bytes as on the text.\<close>

definition AUTH_FAILED :: string where
  "AUTH_FAILED =
      ''Google''
      @ [CHR 0xE8, CHR 0xAA, CHR 0x8D, CHR 0xE8, CHR 0xA8, CHR 0xBC,
      CHR 0xE3, CHR 0x81, CHR 0xAB, CHR 0xE5, CHR 0xA4, CHR 0xB1,
      CHR 0xE6, CHR 0x95, CHR 0x97, CHR 0xE3, CHR 0x81, CHR 0x97,
      CHR 0xE3, CHR 0x81, CHR 0xBE, CHR 0xE3, CHR 0x81, CHR 0x97,
      CHR 0xE3, CHR 0x81, CHR 0x9F]"

definition CALENDAR_FETCH_FAILED :: string where
  "CALENDAR_FETCH_FAILED =
      [CHR 0xE3, CHR 0x82, CHR 0xAB, CHR 0xE3, CHR 0x83, CHR 0xAC,
      CHR 0xE3, CHR 0x83, CHR 0xB3, CHR 0xE3, CHR 0x83, CHR 0x80,
      CHR 0xE3, CHR 0x83, CHR 0xBC, CHR 0xE3, CHR 0x83, CHR 0x87,
      CHR 0xE3, CHR 0x83, CHR 0xBC, CHR 0xE3, CHR 0x82, CHR 0xBF,
      CHR 0xE3, CHR 0x81, CHR 0xAE, CHR 0xE5, CHR 0x8F, CHR 0x96,
      CHR 0xE5, CHR 0xBE, CHR 0x97, CHR 0xE3, CHR 0x81, CHR 0xAB,
      CHR 0xE5, CHR 0xA4, CHR 0xB1, CHR 0xE6, CHR 0x95, CHR 0x97,
      CHR 0xE3, CHR 0x81, CHR 0x97, CHR 0xE3, CHR 0x81, CHR 0xBE,
      CHR 0xE3, CHR 0x81, CHR 0x97, CHR 0xE3, CHR 0x81, CHR 0x9F]"

definition NETWORK_ERROR :: string where
  "NETWORK_ERROR =
      [CHR 0xE3, CHR 0x83, CHR 0x8D, CHR 0xE3, CHR 0x83, CHR 0x83,
      CHR 0xE3, CHR 0x83, CHR 0x88, CHR 0xE3, CHR 0x83, CHR 0xAF,
      CHR 0xE3, CHR 0x83, CHR 0xBC, CHR 0xE3, CHR 0x82, CHR 0xAF,
      CHR 0xE3, CHR 0x82, CHR 0xA8, CHR 0xE3, CHR 0x83, CHR 0xA9,
      CHR 0xE3, CHR 0x83, CHR 0xBC, CHR 0xE3, CHR 0x81, CHR 0x8C,
      CHR 0xE7, CHR 0x99, CHR 0xBA, CHR 0xE7, CHR 0x94, CHR 0x9F,
      CHR 0xE3, CHR 0x81, CHR 0x97, CHR 0xE3, CHR 0x81, CHR 0xBE,
      CHR 0xE3, CHR 0x81, CHR 0x97, CHR 0xE3, CHR 0x81, CHR 0x9F]"

definition TIMEOUT_ERROR :: string where
  "TIMEOUT_ERROR =
      [CHR 0xE3, CHR 0x83, CHR 0xAA, CHR 0xE3, CHR 0x82, CHR 0xAF,
      CHR 0xE3, CHR 0x82, CHR 0xA8, CHR 0xE3, CHR 0x82, CHR 0xB9,
      CHR 0xE3, CHR 0x83, CHR 0x88, CHR 0xE3, CHR 0x81, CHR 0x8C,
      CHR 0xE3, CHR 0x82, CHR 0xBF, CHR 0xE3, CHR 0x82, CHR 0xA4,
      CHR 0xE3, CHR 0x83, CHR 0xA0, CHR 0xE3, CHR 0x82, CHR 0xA2,
      CHR 0xE3, CHR 0x82, CHR 0xA6, CHR 0xE3, CHR 0x83, CHR 0x88,
      CHR 0xE3, CHR 0x81, CHR 0x97, CHR 0xE3, CHR 0x81, CHR 0xBE,
      CHR 0xE3, CHR 0x81, CHR 0x97, CHR 0xE3, CHR 0x81, CHR 0x9F]"

definition RATE_LIMIT_EXCEEDED :: string where
  "RATE_LIMIT_EXCEEDED =
      ''API''
      @ [CHR 0xE4, CHR 0xBD, CHR 0xBF, CHR 0xE7, CHR 0x94, CHR 0xA8,
      CHR 0xE5, CHR 0x88, CHR 0xB6, CHR 0xE9, CHR 0x99, CHR 0x90,
      CHR 0xE3, CHR 0x81, CHR 0xAB, CHR 0xE9, CHR 0x81, CHR 0x94,
      CHR 0xE3, CHR 0x81, CHR 0x97, CHR 0xE3, CHR 0x81, CHR 0xBE,
      CHR 0xE3, CHR 0x81, CHR 0x97, CHR 0xE3, CHR 0x81, CHR 0x9F,
      CHR 0xE3, CHR 0x80, CHR 0x82, CHR 0xE3, CHR 0x81, CHR 0x97,
      CHR 0xE3, CHR 0x81, CHR 0xB0, CHR 0xE3, CHR 0x82, CHR 0x89,
      CHR 0xE3, CHR 0x81, CHR 0x8F, CHR 0xE5, CHR 0xBE, CHR 0x85,
      CHR 0xE3, CHR 0x81, CHR 0xA3, CHR 0xE3, CHR 0x81, CHR 0xA6,
      CHR 0xE3, CHR 0x81, CHR 0x8B, CHR 0xE3, CHR 0x82, CHR 0x89,
      CHR 0xE5, CHR 0x86, CHR 0x8D, CHR 0xE8, CHR 0xA9, CHR 0xA6,
      CHR 0xE8, CHR 0xA1, CHR 0x8C, CHR 0xE3, CHR 0x81, CHR 0x97,
      CHR 0xE3, CHR 0x81, CHR 0xA6, CHR 0xE3, CHR 0x81, CHR 0x8F,
      CHR 0xE3, CHR 0x81, CHR 0xA0, CHR 0xE3, CHR 0x81, CHR 0x95,
      CHR 0xE3, CHR 0x81, CHR 0x84]"

definition QUOTA_EXCEEDED :: string where
  "QUOTA_EXCEEDED =
      ''API''
      @ [CHR 0xE4, CHR 0xBD, CHR 0xBF, CHR 0xE7, CHR 0x94, CHR 0xA8,
      CHR 0xE9, CHR 0x87, CHR 0x8F, CHR 0xE4, CHR 0xB8, CHR 0x8A,
      CHR 0xE9, CHR 0x99, CHR 0x90, CHR 0xE3, CHR 0x81, CHR 0xAB,
      CHR 0xE9, CHR 0x81, CHR 0x94, CHR 0xE3, CHR 0x81, CHR 0x97,
      CHR 0xE3, CHR 0x81, CHR 0xBE, CHR 0xE3, CHR 0x81, CHR 0x97,
      CHR 0xE3, CHR 0x81, CHR 0x9F, CHR 0xE3, CHR 0x80, CHR 0x82,
      CHR 0xE6, CHR 0x98, CHR 0x8E, CHR 0xE6, CHR 0x97, CHR 0xA5,
      CHR 0xE5, CHR 0x86, CHR 0x8D, CHR 0xE8, CHR 0xA9, CHR 0xA6,
      CHR 0xE8, CHR 0xA1, CHR 0x8C, CHR 0xE3, CHR 0x81, CHR 0x97,
      CHR 0xE3, CHR 0x81, CHR 0xA6, CHR 0xE3, CHR 0x81, CHR 0x8F,
      CHR 0xE3, CHR 0x81, CHR 0xA0, CHR 0xE3, CHR 0x81, CHR 0x95,
      CHR 0xE3, CHR 0x81, CHR 0x84]"

section \<open>Strings\<close>

text \<open>\<open>s.includes(p)\<close>.\<close>

fun includesText :: "string \<Rightarrow> string \<Rightarrow> bool" where
  "includesText [] p = (p = [])"
| "includesText (c # cs) p = (take (length p) (c # cs) = p \<or> includesText cs p)"

text \<open>The decimal text of a natural number, as a template literal prints it.\<close>

function decimal :: "nat \<Rightarrow> string" where
  "decimal n =
     (if n < 10 then [char_of (48 + n)]
      else decimal (n div 10) @ [char_of (48 + n mod 10)])"
  by pat_completeness auto
termination
  by (relation "measure (\<lambda>n. n)") auto

declare decimal.simps [simp del]

section \<open>ApiError (apiService.js)\<close>

definition isRateLimited :: "apiError \<Rightarrow> bool" where
  "isRateLimited e =
     (isRateLimit e \<or> status e = Some 429 \<or> includesText (message e) ''rate limit''
      \<or> includesText (message e) ''quota exceeded'')"

definition isAuthError :: "apiError \<Rightarrow> bool" where
  "isAuthError e = (status e = Some 401 \<or> status e = Some 403)"

text \<open>\<open>this.status >= 500\<close> is false for the status \<open>null\<close>.\<close>

definition isTemporary :: "apiError \<Rightarrow> bool" where
  "isTemporary e =
     ((case status e of None \<Rightarrow> False | Some c \<Rightarrow> 500 \<le> c)
      \<or> status e = Some 429 \<or> status e = Some 408)"

section \<open>The fetcher: ApiServiceClass (apiService.js)\<close>

text \<open>
  A URL is one of the two shapes the application builds: the calendar list, or the
  events of a calendar between \<open>timeMin\<close> and \<open>timeMax\<close>.
\<close>

datatype url =
  CalendarListUrl
  | EventsUrl string instant instant

record options =
  http_method :: "string option"
  headers :: "(string \<times> string) list"
  http_body :: "string option"

record request =
  req_url :: url
  req_options :: options

text \<open>
  A response header the code reads with \<open>parseInt\<close>: absent (or empty), or present
  with the result of \<open>parseInt\<close> on its text (\<open>None\<close> when that is \<open>NaN\<close>).
\<close>

datatype header =
  NoHeader
  | HeaderText (parseInt: "int option")

text \<open>A response: \<open>json_result\<close> is what \<open>response.json()\<close> settles to.\<close>

record httpResponse =
  http_status :: int
  statusText :: string
  retryAfterHeader :: header
  rateLimitResetHeader :: header
  json_result :: "js_error + jsonValue"

text \<open>\<open>response.ok\<close>.\<close>

definition ok :: "httpResponse \<Rightarrow> bool" where
  "ok r = (200 \<le> http_status r \<and> http_status r \<le> 299)"

text \<open>
  What the outside world does during one attempt: the clock \<open>Date.now()\<close> when the
  rate limit is checked, the outcome of \<open>fetch\<close> (a rejection with a native error, or a
  response), and the clock when the response is handled.
\<close>

datatype fetchOutcome =
  Rejected string string
  | Responded httpResponse

record attemptEnv =
  nowAtCheck :: nat
  fetched :: fetchOutcome
  nowAtResponse :: nat

text \<open>
  The state of the service: \<open>rateLimitResetTime\<close> (\<open>None\<close> stands for \<open>null\<close> and for
  \<open>NaN\<close>, which \<open>checkRateLimit\<close> treats alike) and \<open>requestCounts\<close> (the timer that
  clears a count after an hour is left out). \<open>trace\<close> is not in the code: it records each
  entry into \<open>fetchWithRetry\<close> and each call of \<open>fetch\<close>.
\<close>

datatype io =
  Attempt url nat
  | Fetch url

record apiState =
  rateLimitResetTime :: "int option"
  requestCounts :: "url \<rightharpoonup> nat"
  trace :: "io list"

text \<open>The text that follows the number of seconds in the message of \<open>checkRateLimit\<close>,
  up to the closing parenthesis; it is Japanese and given as its UTF-8 bytes.\<close>

definition retryableAfterSuffix :: string where
  "retryableAfterSuffix =
      [CHR 0xE7, CHR 0xA7, CHR 0x92, CHR 0xE5, CHR 0xBE, CHR 0x8C,
      CHR 0xE3, CHR 0x81, CHR 0xAB, CHR 0xE5, CHR 0x86, CHR 0x8D,
      CHR 0xE8, CHR 0xA9, CHR 0xA6, CHR 0xE8, CHR 0xA1, CHR 0x8C,
      CHR 0xE5, CHR 0x8F, CHR 0xAF, CHR 0xE8, CHR 0x83, CHR 0xBD]
      @ '')''"

definition mkApiError :: "string \<Rightarrow> int option \<Rightarrow> json option \<Rightarrow> bool \<Rightarrow> js_error" where
  "mkApiError m s r l = ApiError \<lparr>message = m, status = s, response = r, isRateLimit = l\<rparr>"

text \<open>\<open>calculateBackoffDelay\<close>: \<open>r\<close> is the value of \<open>Math.random()\<close>, in \<open>[0, 1)\<close>; the
  arithmetic is that of the real numbers.\<close>

definition calculateBackoffDelay :: "nat \<Rightarrow> real \<Rightarrow> real" where
  "calculateBackoffDelay attempt r =
     (let baseDelay = INITIAL_RETRY_DELAY_MS;
          multiplier = EXPONENTIAL_BACKOFF_MULTIPLIER;
          maxDelay = MAX_RETRY_DELAY_MS;
          delay = min (baseDelay * multiplier ^ attempt) maxDelay;
          jitter = delay * 0.25 * (r - 0.5)
      in max (delay + jitter) 0)"

text \<open>\<open>checkRateLimit\<close>: \<open>Some\<close> is the error it throws. \<open>Math.ceil(waitTime / 1000)\<close> is
  the number of seconds printed in the message.\<close>

definition waitSeconds :: "int \<Rightarrow> nat \<Rightarrow> nat" where
  "waitSeconds resetTime now = nat ((resetTime - int now + 999) div 1000)"

definition checkRateLimit :: "apiState \<Rightarrow> nat \<Rightarrow> js_error option" where
  "checkRateLimit st now =
     (case rateLimitResetTime st of
        None \<Rightarrow> None
      | Some t \<Rightarrow>
          (if t \<noteq> 0 \<and> int now < t
           then Some (mkApiError
                        (RATE_LIMIT_EXCEEDED @ '' ('' @ decimal (waitSeconds t now) @ retryableAfterSuffix)
                        (Some 429) None True)
           else None))"

definition updateRequestCount :: "apiState \<Rightarrow> url \<Rightarrow> apiState" where
  "updateRequestCount st u =
     (let count = (case requestCounts st u of None \<Rightarrow> 0 | Some c \<Rightarrow> c)
      in st\<lparr>requestCounts := (requestCounts st)(u \<mapsto> count + 1)\<rparr>)"

text \<open>\<open>parseRateLimitHeaders\<close>: \<open>Retry-After\<close> first, else \<open>X-RateLimit-Reset\<close>.\<close>

definition parseRateLimitHeaders :: "apiState \<Rightarrow> nat \<Rightarrow> httpResponse \<Rightarrow> apiState" where
  "parseRateLimitHeaders st now r =
     (case retryAfterHeader r of
        HeaderText retryAfter \<Rightarrow>
          st\<lparr>rateLimitResetTime := map_option (\<lambda>n. int now + n * 1000) retryAfter\<rparr>
      | NoHeader \<Rightarrow>
          (case rateLimitResetHeader r of
             HeaderText reset \<Rightarrow> st\<lparr>rateLimitResetTime := map_option (\<lambda>n. n * 1000) reset\<rparr>
           | NoHeader \<Rightarrow> st))"

definition emptyObject :: json where
  "emptyObject = \<lparr>json_error = None, items = None\<rparr>"

text \<open>\<open>errorData.error?.message\<close>, for a body that is not \<open>null\<close>.\<close>

definition errorMessage :: "json \<Rightarrow> messageValue option" where
  "errorMessage j = (case json_error j of None \<Rightarrow> None | Some e \<Rightarrow> err_message e)"

text \<open>The \<open>TypeError\<close>s of \<open>handleErrorResponse\<close>: reading \<open>errorData.error\<close> when the body is
  \<open>null\<close>, and calling \<open>includes\<close> on a message that has no such method.\<close>

definition nullErrorRead :: js_error where
  "nullErrorRead = NativeError ''TypeError'' ''Cannot read properties of null (reading 'error')''"

definition includesNotAFunction :: js_error where
  "includesNotAFunction =
     NativeError ''TypeError'' ''errorData.error?.message?.includes is not a function''"

text \<open>\<open>errorData.error?.message?.includes('quota')\<close>: its value, or the error it raises.\<close>

definition mentionsQuota :: "messageValue option \<Rightarrow> js_error + bool" where
  "mentionsQuota m =
     (case m of
        None \<Rightarrow> Inr False
      | Some (Text t) \<Rightarrow> Inr (includesText t ''quota'')
      | Some (ArrayValue q s) \<Rightarrow> Inr q
      | Some (OtherValue t s) \<Rightarrow> Inl includesNotAFunction)"

text \<open>\<open>errorData.error?.message || `HTTP ${response.status}: ${response.statusText}`\<close>, as
  the text the \<open>ApiError\<close> gets.\<close>

definition messageOrStatus :: "messageValue option \<Rightarrow> httpResponse \<Rightarrow> string" where
  "messageOrStatus m r =
     (let fallback = ''HTTP '' @ decimal (nat (http_status r)) @ '': '' @ statusText r
      in case m of
           None \<Rightarrow> fallback
         | Some (Text t) \<Rightarrow> (if t \<noteq> [] then t else fallback)
         | Some (ArrayValue q s) \<Rightarrow> s
         | Some (OtherValue t s) \<Rightarrow> (if t then s else fallback))"

text \<open>
  \<open>handleErrorResponse\<close> always throws: it returns the new state and the value thrown.
  \<open>errorData\<close> is the parsed body, or \<open>{}\<close> when the body cannot be parsed. Only the
  branch of status 429 does not read \<open>errorData.error\<close>; the other two read it without a
  guard, which raises a \<open>TypeError\<close> when the body is \<open>null\<close>.
\<close>

definition handleErrorResponse :: "apiState \<Rightarrow> nat \<Rightarrow> httpResponse \<Rightarrow> apiState \<times> js_error" where
  "handleErrorResponse st now r =
     (let errorData = (case json_result r of Inl _ \<Rightarrow> Some emptyObject | Inr j \<Rightarrow> j)
      in if http_status r = 429
         then (let retryAfter = (case retryAfterHeader r of NoHeader \<Rightarrow> Some 60 | HeaderText n \<Rightarrow> n)
               in (st\<lparr>rateLimitResetTime := map_option (\<lambda>n. int now + n * 1000) retryAfter\<rparr>,
                   mkApiError RATE_LIMIT_EXCEEDED (Some 429) errorData True))
         else (case errorData of
                 None \<Rightarrow> (st, nullErrorRead)
               | Some body \<Rightarrow>
                   (case (if http_status r = 403 then mentionsQuota (errorMessage body)
                          else Inr False) of
                      Inl err \<Rightarrow> (st, err)
                    | Inr quota \<Rightarrow>
                        (if quota
                         then (st, mkApiError QUOTA_EXCEEDED (Some 403) errorData True)
                         else (st, mkApiError (messageOrStatus (errorMessage body) r)
                                     (Some (http_status r)) errorData False)))))"

definition shouldRetry :: "js_error \<Rightarrow> nat \<Rightarrow> bool" where
  "shouldRetry error attempt =
     (if int MAX_RETRY_ATTEMPTS - 1 \<le> int attempt then False
      else case error of
             ApiError e \<Rightarrow>
               (if isRateLimited e then False
                else if isAuthError e then False
                else isTemporary e)
           | NativeError n m \<Rightarrow> True)"

definition normalizeError :: "js_error \<Rightarrow> js_error" where
  "normalizeError error =
     (case error of
        ApiError e \<Rightarrow> ApiError e
      | NativeError n m \<Rightarrow>
          (if n = ''AbortError'' then mkApiError TIMEOUT_ERROR (Some 408) None False
           else if n = ''TypeError'' \<and> includesText m ''fetch''
           then mkApiError NETWORK_ERROR (Some 0) None False
           else mkApiError (if m \<noteq> [] then m else NETWORK_ERROR) None None False))"

text \<open>
  The \<open>try\<close> block of \<open>fetchWithRetry\<close>, for one attempt: the rate-limit check, the
  request count, \<open>fetch\<close>, the headers, the error response, the body.
\<close>

definition attemptRequest ::
  "attemptEnv \<Rightarrow> apiState \<Rightarrow> url \<Rightarrow> options \<Rightarrow> apiState \<times> (js_error + jsonValue)" where
  "attemptRequest env st u opts =
     (case checkRateLimit st (nowAtCheck env) of
        Some err \<Rightarrow> (st, Inl err)
      | None \<Rightarrow>
          (let st1 = updateRequestCount st u;
               st2 = st1\<lparr>trace := trace st1 @ [Fetch u]\<rparr>
           in case fetched env of
                Rejected n m \<Rightarrow> (st2, Inl (NativeError n m))
              | Responded r \<Rightarrow>
                  (let st3 = parseRateLimitHeaders st2 (nowAtResponse env) r
                   in if \<not> ok r
                      then (let (st4, err) = handleErrorResponse st3 (nowAtResponse env) r
                            in (st4, Inl err))
                      else (case json_result r of
                              Inl err \<Rightarrow> (st3, Inl err)
                            | Inr data \<Rightarrow> (st3, Inr data)))))"

text \<open>
  \<open>fetchWithRetry\<close>: \<open>env k\<close> is the outside world during attempt \<open>k\<close>; the time spent
  in \<open>sleep\<close> before a retry shows only in the clock of the next attempt.
\<close>

function fetchWithRetry ::
  "(nat \<Rightarrow> attemptEnv) \<Rightarrow> apiState \<Rightarrow> url \<Rightarrow> options \<Rightarrow> nat \<Rightarrow> apiState \<times> (js_error + jsonValue)" where
  "fetchWithRetry env st u opts attempt =
     (let (st', res) = attemptRequest (env attempt) (st\<lparr>trace := trace st @ [Attempt u attempt]\<rparr>) u opts
      in case res of
           Inr data \<Rightarrow> (st', Inr data)
         | Inl error \<Rightarrow>
             (if shouldRetry error attempt
              then fetchWithRetry env st' u opts (attempt + 1)
              else (st', Inl (normalizeError error))))"
  by pat_completeness auto
termination
proof (relation "measure (\<lambda>(env, st, u, opts, attempt). MAX_RETRY_ATTEMPTS - attempt)")
  show "wf (measure (\<lambda>(env, st, u, opts, attempt). MAX_RETRY_ATTEMPTS - attempt))"
    by simp
next
  fix env :: "nat \<Rightarrow> attemptEnv" and st st' :: apiState and u :: url and opts :: options
    and attempt :: nat and error :: js_error
  assume "shouldRetry error attempt"
  then have "attempt + 1 < MAX_RETRY_ATTEMPTS"
    by (simp add: shouldRetry_def MAX_RETRY_ATTEMPTS_def split: if_splits)
  then show "((env, st', u, opts, attempt + 1), (env, st, u, opts, attempt))
               \<in> measure (\<lambda>(env, st, u, opts, attempt). MAX_RETRY_ATTEMPTS - attempt)"
    by simp
qed

declare fetchWithRetry.simps [simp del]

section \<open>Batches (apiService.js)\<close>

text \<open>
  \<open>executeRequest(url, options)\<close> returns a promise: it hands \<open>fetchWithRetry\<close> to the
  concurrency manager, which starts the request at once or queues it (three run at a
  time), and the requests in flight run interleaved and share the state of the
  service. The batch code does not depend on how: it needs
  the three things an executor on a world \<open>'w\<close> with promises \<open>'p\<close> offers.
  \<^item> \<open>submit\<close>: the call \<open>executeRequest(url, options)\<close>, which changes the world and
    returns the promise;
  \<^item> \<open>awaitAll\<close>: the world once all the given promises have settled (what \<open>await\<close> and
    \<open>Promise.all\<close> wait for), whatever the requests did to each other meanwhile;
  \<^item> \<open>settled\<close>: how a promise has settled in that world, rejected with an error or
    fulfilled with the body.
\<close>

record ('w, 'p) executor =
  submit :: "'w \<Rightarrow> url \<Rightarrow> options \<Rightarrow> 'w \<times> 'p"
  awaitAll :: "'w \<Rightarrow> 'p list \<Rightarrow> 'w"
  settled :: "'w \<Rightarrow> 'p \<Rightarrow> js_error + jsonValue"

text \<open>\<open>await this.executeRequest(url, options)\<close>: one request, awaited alone.\<close>

definition awaitRequest ::
  "('w, 'p) executor \<Rightarrow> 'w \<Rightarrow> url \<Rightarrow> options \<Rightarrow> 'w \<times> (js_error + jsonValue)" where
  "awaitRequest ex w u opts =
     (let (w1, p) = submit ex w u opts;
          w2 = awaitAll ex w1 [p]
      in (w2, settled ex w2 p))"

text \<open>An entry of the result array: the data, or the object \<open>{ error }\<close> made by
  \<open>.catch(error => ({ error }))\<close>.\<close>

datatype batchResult =
  Data jsonValue
  | ErrorResult js_error

definition captured :: "js_error + jsonValue \<Rightarrow> batchResult" where
  "captured r = (case r of Inl error \<Rightarrow> ErrorResult error | Inr data \<Rightarrow> Data data)"

text \<open>The first loop of \<open>batchRequest\<close>: \<open>batches\<close> from index \<open>i\<close> on;
  \<open>requests.slice(i, i + BATCH_SIZE)\<close> is \<open>take BATCH_SIZE (drop i requests)\<close>.\<close>

function slices :: "nat \<Rightarrow> 'a list \<Rightarrow> 'a list list" where
  "slices i requests =
     (if i < length requests
      then take BATCH_SIZE (drop i requests) # slices (i + BATCH_SIZE) requests
      else [])"
  by pat_completeness auto
termination
  by (relation "measure (\<lambda>(i, requests). length requests - i)") (auto simp: BATCH_SIZE_def)

declare slices.simps [simp del]

text \<open>\<open>batch.map(req => this.executeRequest(req.url, req.options)...)\<close>: the requests of a
  batch are submitted in order, none is awaited yet.\<close>

fun submitAll :: "('w, 'p) executor \<Rightarrow> 'w \<Rightarrow> request list \<Rightarrow> 'w \<times> 'p list" where
  "submitAll ex w [] = (w, [])"
| "submitAll ex w (req # reqs) =
     (let (w1, p) = submit ex w (req_url req) (req_options req);
          (w2, ps) = submitAll ex w1 reqs
      in (w2, p # ps))"

text \<open>One batch: \<open>await Promise.all(batchPromises)\<close> gives, in the order of the batch, what
  each promise settled to, a rejection captured as \<open>{ error }\<close>.\<close>

definition runBatch :: "('w, 'p) executor \<Rightarrow> 'w \<Rightarrow> request list \<Rightarrow> 'w \<times> batchResult list" where
  "runBatch ex w batch =
     (let (w1, batchPromises) = submitAll ex w batch;
          w2 = awaitAll ex w1 batchPromises
      in (w2, map (\<lambda>p. captured (settled ex w2 p)) batchPromises))"

text \<open>The second loop, \<open>for (const batch of batches)\<close>: each slice is a fresh array, so
  \<open>batches.indexOf(batch) < batches.length - 1\<close> holds exactly when a batch follows;
  \<open>sleep\<close> is \<open>this.sleep\<close>.\<close>

fun runBatches ::
  "('w, 'p) executor \<Rightarrow> ('w \<Rightarrow> nat \<Rightarrow> 'w) \<Rightarrow> 'w \<Rightarrow> request list list \<Rightarrow> 'w \<times> batchResult list" where
  "runBatches ex sleep w [] = (w, [])"
| "runBatches ex sleep w (batch # rest) =
     (let (w1, batchResults) = runBatch ex w batch;
          w2 = (if rest \<noteq> [] then sleep w1 1000 else w1);
          (w3, results) = runBatches ex sleep w2 rest
      in (w3, batchResults @ results))"

definition batchRequest ::
  "('w, 'p) executor \<Rightarrow> ('w \<Rightarrow> nat \<Rightarrow> 'w) \<Rightarrow> 'w \<Rightarrow> request list \<Rightarrow> 'w \<times> batchResult list" where
  "batchRequest ex sleep w requests = runBatches ex sleep w (slices 0 requests)"

section \<open>CalendarService.fetchAllCalendarEvents (App.js)\<close>

text \<open>\<open>authenticatedRequest\<close>, awaited by its caller.\<close>

definition authenticatedRequest ::
  "('w, 'p) executor \<Rightarrow> 'w \<Rightarrow> url \<Rightarrow> string \<Rightarrow> options \<Rightarrow> 'w \<times> (js_error + jsonValue)" where
  "authenticatedRequest ex w u accessToken opts =
     (if accessToken = [] then (w, Inl (mkApiError AUTH_FAILED (Some 401) None False))
      else awaitRequest ex w u
             (opts\<lparr>headers := headers opts @ [(''Authorization'', ''Bearer '' @ accessToken)]\<rparr>))"

text \<open>The text appended to \<open>RATE_LIMIT_EXCEEDED\<close> in the \<open>catch\<close> of
  \<open>fetchAllCalendarEvents\<close> (UTF-8 bytes).\<close>

definition rateLimitAdvice :: string where
  "rateLimitAdvice =
      [CHR 0x0A, CHR 0x0A, CHR 0xE2, CHR 0x8F, CHR 0xB1, CHR 0xEF,
      CHR 0xB8, CHR 0x8F]
      @ '' Google Calendar API''
      @ [CHR 0xE3, CHR 0x81, CHR 0xAE, CHR 0xE4, CHR 0xBD, CHR 0xBF,
      CHR 0xE7, CHR 0x94, CHR 0xA8, CHR 0xE5, CHR 0x88, CHR 0xB6,
      CHR 0xE9, CHR 0x99, CHR 0x90, CHR 0xE3, CHR 0x81, CHR 0xAB,
      CHR 0xE9, CHR 0x81, CHR 0x94, CHR 0xE3, CHR 0x81, CHR 0x97,
      CHR 0xE3, CHR 0x81, CHR 0xBE, CHR 0xE3, CHR 0x81, CHR 0x97,
      CHR 0xE3, CHR 0x81, CHR 0x9F, CHR 0xE3, CHR 0x80, CHR 0x82,
      CHR 0x0A, CHR 0xF0, CHR 0x9F, CHR 0x93, CHR 0x85]
      @ '' ''
      @ [CHR 0xE3, CHR 0x81, CHR 0x97, CHR 0xE3, CHR 0x81, CHR 0xB0,
      CHR 0xE3, CHR 0x82, CHR 0x89, CHR 0xE3, CHR 0x81, CHR 0x8F,
      CHR 0xE6, CHR 0x99, CHR 0x82, CHR 0xE9, CHR 0x96, CHR 0x93,
      CHR 0xE3, CHR 0x82, CHR 0x92, CHR 0xE3, CHR 0x81, CHR 0x8A,
      CHR 0xE3, CHR 0x81, CHR 0x84, CHR 0xE3, CHR 0x81, CHR 0xA6,
      CHR 0xE3, CHR 0x81, CHR 0x8B, CHR 0xE3, CHR 0x82, CHR 0x89,
      CHR 0xE5, CHR 0x86, CHR 0x8D, CHR 0xE8, CHR 0xA9, CHR 0xA6,
      CHR 0xE8, CHR 0xA1, CHR 0x8C, CHR 0xE3, CHR 0x81, CHR 0x97,
      CHR 0xE3, CHR 0x81, CHR 0xA6, CHR 0xE3, CHR 0x81, CHR 0x8F,
      CHR 0xE3, CHR 0x81, CHR 0xA0, CHR 0xE3, CHR 0x81, CHR 0x95,
      CHR 0xE3, CHR 0x81, CHR 0x84, CHR 0xE3, CHR 0x80, CHR 0x82]"

text \<open>\<open>error.message\<close> of a thrown value.\<close>

definition messageOf :: "js_error \<Rightarrow> string" where
  "messageOf error = (case error of ApiError e \<Rightarrow> message e | NativeError n m \<Rightarrow> m)"

text \<open>The \<open>catch\<close> of \<open>fetchAllCalendarEvents\<close>: the \<open>Error\<close> thrown instead.\<close>

definition fetchFailure :: "js_error \<Rightarrow> js_error" where
  "fetchFailure error =
     (if (case error of ApiError e \<Rightarrow> isRateLimited e | NativeError n m \<Rightarrow> False)
      then NativeError ''Error'' (RATE_LIMIT_EXCEEDED @ rateLimitAdvice)
      else NativeError ''Error'' (CALENDAR_FETCH_FAILED @ '': '' @ messageOf error))"

text \<open>The \<open>TypeError\<close>s of reading \<open>calendarsData.items\<close> and \<open>result.error\<close> when the data
  is \<open>null\<close>.\<close>

definition nullItemsRead :: js_error where
  "nullItemsRead = NativeError ''TypeError'' ''Cannot read properties of null (reading 'items')''"

text \<open>\<open>result.error\<close> is truthy (\<open>result\<close> is not \<open>null\<close>).\<close>

definition hasError :: "batchResult \<Rightarrow> bool" where
  "hasError r =
     (case r of
        ErrorResult e \<Rightarrow> True
      | Data None \<Rightarrow> False
      | Data (Some d) \<Rightarrow> json_error d \<noteq> None)"

text \<open>\<open>result.items || []\<close> (\<open>result\<close> is not \<open>null\<close>).\<close>

definition itemsOrEmpty :: "batchResult \<Rightarrow> event list" where
  "itemsOrEmpty r =
     (case r of
        ErrorResult e \<Rightarrow> []
      | Data None \<Rightarrow> []
      | Data (Some d) \<Rightarrow> (case items d of None \<Rightarrow> [] | Some evs \<Rightarrow> evs))"

text \<open>\<open>event.start && event.start.dateTime\<close>.\<close>

definition hasStartDateTime :: "event \<Rightarrow> bool" where
  "hasStartDateTime e =
     (case ev_start e of None \<Rightarrow> False | Some s \<Rightarrow> dateTime s \<noteq> None)"

definition eventRequest :: "string \<Rightarrow> instant \<Rightarrow> instant \<Rightarrow> event \<Rightarrow> request" where
  "eventRequest accessToken startDate endDate calendar =
     \<lparr>req_url = EventsUrl (ev_id calendar) startDate endDate,
      req_options = \<lparr>http_method = None,
                     headers = [(''Authorization'', ''Bearer '' @ accessToken)],
                     http_body = None\<rparr>\<rparr>"

definition noOptions :: options where
  "noOptions = \<lparr>http_method = None, headers = [], http_body = None\<rparr>"

text \<open>
  \<open>fetchAllCalendarEvents\<close>. Reading \<open>calendarsData.items\<close> raises when the calendar list
  is \<open>null\<close>, and the loop that logs each result reads \<open>result.error\<close>, which raises when
  a result is \<open>null\<close>; the \<open>catch\<close> turns every error into the \<open>Error\<close> of \<open>fetchFailure\<close>.
\<close>

definition fetchAllCalendarEvents ::
  "('w, 'p) executor \<Rightarrow> ('w \<Rightarrow> nat \<Rightarrow> 'w) \<Rightarrow> 'w \<Rightarrow> string \<Rightarrow> instant \<Rightarrow> instant
     \<Rightarrow> 'w \<times> (js_error + event list)" where
  "fetchAllCalendarEvents ex sleep w accessToken startDate endDate =
     (case authenticatedRequest ex w CalendarListUrl accessToken noOptions of
        (w1, Inl error) \<Rightarrow> (w1, Inl (fetchFailure error))
      | (w1, Inr None) \<Rightarrow> (w1, Inl (fetchFailure nullItemsRead))
      | (w1, Inr (Some calendarsData)) \<Rightarrow>
          (case items calendarsData of
             None \<Rightarrow> (w1, Inr [])
           | Some calendars \<Rightarrow>
               (if length calendars = 0 then (w1, Inr [])
                else (let eventRequests = map (eventRequest accessToken startDate endDate) calendars;
                          (w2, results) = batchRequest ex sleep w1 eventRequests
                      in if Data None \<in> set results
                         then (w2, Inl (fetchFailure nullErrorRead))
                         else (let allEvents =
                                     filter hasStartDateTime
                                       (concat (map itemsOrEmpty
                                          (filter (\<lambda>result. \<not> hasError result) results)))
                               in (w2, Inr allEvents))))))"

section \<open>Observing a batch run\<close>

text \<open>
  What a batch run does to the executor, made visible: \<open>logged ex\<close> is the executor
  \<open>ex\<close> that also writes down each request submitted with its promise and, at each
  wait, the promises awaited with what each settled to; \<open>loggedSleep\<close> writes down each
  pause.
\<close>

datatype 'p batchEvent =
  Submitted request 'p
  | Awaited "('p \<times> (js_error + jsonValue)) list"
  | Slept nat

definition logged :: "('w, 'p) executor \<Rightarrow> ('w \<times> 'p batchEvent list, 'p) executor" where
  "logged ex =
     \<lparr>submit = (\<lambda>(w, l) u opts.
                  (let (w1, p) = submit ex w u opts
                   in ((w1, l @ [Submitted \<lparr>req_url = u, req_options = opts\<rparr> p]), p))),
      awaitAll = (\<lambda>(w, l) ps.
                    (let w2 = awaitAll ex w ps
                     in (w2, l @ [Awaited (map (\<lambda>p. (p, settled ex w2 p)) ps)]))),
      settled = (\<lambda>(w, l) p. settled ex w p)\<rparr>"

definition loggedSleep :: "('w \<Rightarrow> nat \<Rightarrow> 'w) \<Rightarrow> 'w \<times> 'p batchEvent list \<Rightarrow> nat \<Rightarrow> 'w \<times> 'p batchEvent list" where
  "loggedSleep sleep = (\<lambda>(w, l) ms. (sleep w ms, l @ [Slept ms]))"

text \<open>
  The log of a run in chunks, each given with its promises and what they settled to:
  the requests of a chunk are submitted, then awaited together, and a pause of 1000
  follows every chunk but the last.
\<close>

fun chunkLog ::
  "(request list \<times> 'p list \<times> (js_error + jsonValue) list) list \<Rightarrow> 'p batchEvent list" where
  "chunkLog [] = []"
| "chunkLog [(chunk, ps, outs)] = map2 Submitted chunk ps @ [Awaited (zip ps outs)]"
| "chunkLog ((chunk, ps, outs) # run # runs) =
     map2 Submitted chunk ps @ [Awaited (zip ps outs), Slept 1000] @ chunkLog (run # runs)"

section \<open>Auxiliary notions for the proofs\<close>

text \<open>Adjacent slots of a list are apart: each ends before the next starts.\<close>

fun gapped :: "freeSlot list \<Rightarrow> bool" where
  "gapped [] = True"
| "gapped [x] = True"
| "gapped (x # y # ys) = (endTime x < startTime y \<and> gapped (y # ys))"

text \<open>A slot is the text of a gap of at least the minimum length inside a window.\<close>

definition inWindow :: "instant \<Rightarrow> instant \<Rightarrow> freeSlot \<Rightarrow> bool" where
  "inWindow lo hi x =
     (\<exists>s e. x = mkSlot s e \<and> lo \<le> s \<and> s + MIN_SLOT_DURATION * MS_PER_MINUTE \<le> e \<and> e \<le> hi)"

text \<open>A timed event of day \<open>d\<close> from minute \<open>a\<close> to minute \<open>b\<close> of that day.\<close>

definition timedEvent :: "int \<Rightarrow> int \<Rightarrow> int \<Rightarrow> event" where
  "timedEvent d a b =
     \<lparr>ev_id = ''e'', summary = ''busy'',
      ev_start = Some \<lparr>date = None,
                       dateTime = Some \<lparr>dtDate = d, dtInstant = startOfDay d + a * MS_PER_MINUTE\<rparr>\<rparr>,
      ev_end = Some \<lparr>date = None,
                     dateTime = Some \<lparr>dtDate = d, dtInstant = startOfDay d + b * MS_PER_MINUTE\<rparr>\<rparr>\<rparr>"

text \<open>A timed event of 2024-06-10 (day 19884) that has a start and no \<open>end\<close>.\<close>

definition noEndEvent :: event where
  "noEndEvent =
     \<lparr>ev_id = ''e1'', summary = ''no end'',
      ev_start = Some \<lparr>date = None,
                       dateTime = Some \<lparr>dtDate = 19884,
                                        dtInstant = startOfDay 19884 + 540 * MS_PER_MINUTE\<rparr>\<rparr>,
      ev_end = None\<rparr>"

text \<open>An all-day event of day \<open>d\<close> (its exclusive end is the next day).\<close>

definition allDayEvent :: "int \<Rightarrow> event" where
  "allDayEvent d =
     \<lparr>ev_id = ''a'', summary = ''all day'',
      ev_start = Some \<lparr>date = Some d, dateTime = None\<rparr>,
      ev_end = Some \<lparr>date = Some (d + 1), dateTime = None\<rparr>\<rparr>"

text \<open>An event without \<open>start\<close> and \<open>end\<close>; a calendar of the calendar list has this shape.\<close>

definition bareItem :: "string \<Rightarrow> event" where
  "bareItem i = \<lparr>ev_id = i, summary = i, ev_start = None, ev_end = None\<rparr>"

text \<open>The preferred slot 10:00 to 12:00 on day 19884, and the slot 22:00 to 24:00, whose
  end is not a clock time of the time format.\<close>

definition morningSlot :: timeSlot where
  "morningSlot =
     \<lparr>slot_date = 19884, slot_start = \<lparr>hour = 10, minute = 0\<rparr>, slot_end = \<lparr>hour = 12, minute = 0\<rparr>\<rparr>"

definition lateSlot :: timeSlot where
  "lateSlot =
     \<lparr>slot_date = 19884, slot_start = \<lparr>hour = 22, minute = 0\<rparr>, slot_end = \<lparr>hour = 24, minute = 0\<rparr>\<rparr>"

text \<open>
  The dates a call with the given range and preferred slots has to examine, as the
  specification words them: the dates named by the slots if there are any, else
  every date from the day of the start to the day of the end; \<open>dateAt\<close> is the date
  value the code makes for such a day and \<open>slotsOn\<close> the preferred slots of the day.
\<close>

definition datesToExamine :: "instant \<Rightarrow> instant \<Rightarrow> timeSlot list \<Rightarrow> int set" where
  "datesToExamine startDate endDate timeSlots =
     (if timeSlots = [] then {dayOf startDate .. dayOf endDate} else slot_date ` set timeSlots)"

definition dateAt :: "instant \<Rightarrow> timeSlot list \<Rightarrow> int \<Rightarrow> instant" where
  "dateAt startDate timeSlots k =
     (if timeSlots = [] then startDate + (k - dayOf startDate) * MS_PER_DAY else startOfDay k)"

definition slotsOn :: "timeSlot list \<Rightarrow> int \<Rightarrow> timeSlot list" where
  "slotsOn timeSlots k = filter (\<lambda>s. slot_date s = k) timeSlots"

text \<open>The clamped exponential delay before the jitter.\<close>

definition backoffBase :: "nat \<Rightarrow> real" where
  "backoffBase attempt =
     min (INITIAL_RETRY_DELAY_MS * EXPONENTIAL_BACKOFF_MULTIPLIER ^ attempt) MAX_RETRY_DELAY_MS"

text \<open>Counting the entries of a trace.\<close>

definition countAttempts :: "io list \<Rightarrow> nat" where
  "countAttempts xs =
     length (filter (\<lambda>x. case x of Attempt u k \<Rightarrow> True | Fetch u \<Rightarrow> False) xs)"

definition countFetches :: "io list \<Rightarrow> nat" where
  "countFetches xs =
     length (filter (\<lambda>x. case x of Attempt u k \<Rightarrow> False | Fetch u \<Rightarrow> True) xs)"

text \<open>A fresh service, a service whose rate limit lasts until time 5000, and outside
  worlds in which attempt \<open>k\<close>, at time \<open>2000 + 2000 k\<close>, is answered by the given
  response: \<open>plainResponse c\<close> has status \<open>c\<close> and the body \<open>{}\<close>, \<open>nullResponse c\<close> has
  status \<open>c\<close> and the body \<open>null\<close>.\<close>

definition freshState :: apiState where
  "freshState = \<lparr>rateLimitResetTime = None, requestCounts = Map.empty, trace = []\<rparr>"

definition limitedState :: apiState where
  "limitedState = \<lparr>rateLimitResetTime = Some 5000, requestCounts = Map.empty, trace = []\<rparr>"

definition plainResponse :: "int \<Rightarrow> httpResponse" where
  "plainResponse c =
     \<lparr>http_status = c, statusText = ''status'', retryAfterHeader = NoHeader,
      rateLimitResetHeader = NoHeader, json_result = Inr (Some emptyObject)\<rparr>"

definition nullResponse :: "int \<Rightarrow> httpResponse" where
  "nullResponse c =
     \<lparr>http_status = c, statusText = ''status'', retryAfterHeader = NoHeader,
      rateLimitResetHeader = NoHeader, json_result = Inr None\<rparr>"

definition answering :: "httpResponse \<Rightarrow> nat \<Rightarrow> attemptEnv" where
  "answering r k =
     \<lparr>nowAtCheck = 2000 + 2000 * k, fetched = Responded r, nowAtResponse = 2100 + 2000 * k\<rparr>"

text \<open>The error of a response with status 500 and the body \<open>{}\<close>.\<close>

definition serverError :: js_error where
  "serverError = mkApiError ''HTTP 500: status'' (Some 500) (Some emptyObject) False"

text \<open>
  A small executor on a counter of the requests submitted, whose promises are already
  settled: the calendar list has the calendars \<open>a\<close> and \<open>b\<close>; the events of \<open>b\<close> fail;
  every other calendar has a timed event, an all-day event and an item without start.
\<close>

definition sampleData :: json where
  "sampleData =
     \<lparr>json_error = None,
      items = Some [timedEvent 19884 540 600, allDayEvent 19884, bareItem ''x'']\<rparr>"

definition sampleOutcome :: "url \<Rightarrow> js_error + jsonValue" where
  "sampleOutcome u =
     (case u of
        CalendarListUrl \<Rightarrow>
          Inr (Some \<lparr>json_error = None, items = Some [bareItem ''a'', bareItem ''b'']\<rparr>)
      | EventsUrl i t0 t1 \<Rightarrow>
          (if i = ''b'' then Inl (NativeError ''TypeError'' ''Failed to fetch'')
           else Inr (Some sampleData)))"

definition sampleExec :: "(nat, js_error + jsonValue) executor" where
  "sampleExec =
     \<lparr>submit = (\<lambda>w u opts. (w + 1, sampleOutcome u)),
      awaitAll = (\<lambda>w ps. w),
      settled = (\<lambda>w p. p)\<rparr>"

definition noSleep :: "nat \<Rightarrow> nat \<Rightarrow> nat" where
  "noSleep w ms = w"

definition sampleRequest :: "string \<Rightarrow> request" where
  "sampleRequest i = \<lparr>req_url = EventsUrl i 0 0, req_options = noOptions\<rparr>"

text \<open>Seven requests, of which the second fails.\<close>

definition sevenRequests :: "request list" where
  "sevenRequests = map sampleRequest [''a'', ''b'', ''c'', ''d'', ''e'', ''f'', ''g'']"

text \<open>
  An executor whose requests in flight affect each other. A request submitted stays
  in flight until the next wait; the wait answers the requests in flight latest first;
  once a request has been rejected, every request answered after it is rejected with
  the rate-limit error, in this wait and in the later ones. A promise is the number of
  its request in the order of submission (\<open>settled\<close> is read only for promises that have
  been awaited).
\<close>

record flights =
  inFlight :: "(nat \<times> url) list"
  answers :: "(nat \<times> (js_error + jsonValue)) list"
  issued :: nat
  limited :: bool

definition limitError :: js_error where
  "limitError = mkApiError RATE_LIMIT_EXCEEDED (Some 429) None True"

definition answer :: "flights \<Rightarrow> nat \<times> url \<Rightarrow> flights" where
  "answer w pu =
     (let r = (if limited w then Inl limitError else sampleOutcome (snd pu))
      in w\<lparr>answers := answers w @ [(fst pu, r)], limited := (limited w \<or> isl r)\<rparr>)"

definition crowdedExec :: "(flights, nat) executor" where
  "crowdedExec =
     \<lparr>submit = (\<lambda>w u opts.
                  (w\<lparr>inFlight := inFlight w @ [(issued w, u)], issued := issued w + 1\<rparr>, issued w)),
      awaitAll = (\<lambda>w ps. (foldl answer w (rev (inFlight w)))\<lparr>inFlight := []\<rparr>),
      settled = (\<lambda>w p. case map_of (answers w) p of
                           Some r \<Rightarrow> r
                         | None \<Rightarrow> Inl (NativeError ''Error'' ''not settled''))\<rparr>"

definition noFlights :: flights where
  "noFlights = \<lparr>inFlight = [], answers = [], issued = 0, limited = False\<rparr>"

definition idle :: "flights \<Rightarrow> nat \<Rightarrow> flights" where
  "idle w ms = w"

text \<open>What the seven requests settle to on this executor, in the order of the
  requests.\<close>

definition crowdedOutcomes :: "(js_error + jsonValue) list" where
  "crowdedOutcomes =
     [Inl limitError, Inl (NativeError ''TypeError'' ''Failed to fetch''),
      Inr (Some sampleData), Inr (Some sampleData), Inr (Some sampleData),
      Inl limitError, Inl limitError]"

definition crowdedResults :: "batchResult list" where
  "crowdedResults =
     [ErrorResult limitError, ErrorResult (NativeError ''TypeError'' ''Failed to fetch''),
      Data (Some sampleData), Data (Some sampleData), Data (Some sampleData),
      ErrorResult limitError, ErrorResult limitError]"

section \<open>Properties\<close>

subsection \<open>Days and clock texts\<close>

lemma dayOf_startOfDay: "dayOf (startOfDay d) = d"
  by (simp add: dayOf_def startOfDay_def MS_PER_DAY_def)

lemma dayOf_step: "dayOf (t + MS_PER_DAY) = dayOf t + 1"
  by (simp add: dayOf_def MS_PER_DAY_def)

lemma dayOf_mono: "a \<le> b \<Longrightarrow> dayOf a \<le> dayOf b"
  by (simp add: dayOf_def MS_PER_DAY_def zdiv_mono1)

lemma formatHHmm_startOfDay:
  assumes "0 \<le> k" and "k < 1440"
  shows "formatHHmm (startOfDay d + k * MS_PER_MINUTE) = nat k"
proof -
  have "(d * 86400000 + k * 60000) mod 86400000 = k * 60000"
    using assms by (simp add: mod_pos_pos_trivial)
  then show ?thesis
    by (simp add: formatHHmm_def startOfDay_def MS_PER_DAY_def MS_PER_MINUTE_def)
qed

text \<open>A difference of at least thirty whole minutes is a distance of at least thirty
  minutes between the instants.\<close>

lemma diffMinutes_ge:
  assumes "MIN_SLOT_DURATION \<le> diffMinutes e s"
  shows "s + MIN_SLOT_DURATION * MS_PER_MINUTE \<le> e"
proof -
  have "\<not> e - s < 0"
    using assms by (auto simp: diffMinutes_def MIN_SLOT_DURATION_def MS_PER_MINUTE_def Let_def)
  then have "30 \<le> (e - s) div 60000"
    using assms by (simp add: diffMinutes_def MIN_SLOT_DURATION_def MS_PER_MINUTE_def Let_def)
  then have "1800000 \<le> e - s" by linarith
  then show ?thesis by (simp add: MIN_SLOT_DURATION_def MS_PER_MINUTE_def)
qed

text \<open>Inside one day, dropping the seconds of both ends keeps a gap of thirty minutes.\<close>

lemma formatHHmm_gap:
  assumes day: "dayOf lo = dayOf hi"
    and "lo \<le> s" and gap: "s + MIN_SLOT_DURATION * MS_PER_MINUTE \<le> e" and "e \<le> hi"
  shows "int (formatHHmm s) + MIN_SLOT_DURATION \<le> int (formatHHmm e)"
proof -
  have se: "s \<le> e" using gap by (simp add: MIN_SLOT_DURATION_def MS_PER_MINUTE_def)
  have "dayOf lo \<le> dayOf s" "dayOf s \<le> dayOf e" "dayOf e \<le> dayOf hi"
    using \<open>lo \<le> s\<close> \<open>e \<le> hi\<close> se by (simp_all add: dayOf_mono)
  then have ds: "dayOf s = dayOf lo" and de: "dayOf e = dayOf lo" using day by auto
  define D where "D = dayOf lo"
  have ms: "s mod MS_PER_DAY = s - D * MS_PER_DAY"
    using ds minus_div_mult_eq_mod[of s MS_PER_DAY] by (simp add: D_def dayOf_def)
  have me: "e mod MS_PER_DAY = e - D * MS_PER_DAY"
    using de minus_div_mult_eq_mod[of e MS_PER_DAY] by (simp add: D_def dayOf_def)
  have s0: "0 \<le> s mod MS_PER_DAY" and e0: "0 \<le> e mod MS_PER_DAY"
    by (simp_all add: MS_PER_DAY_def)
  have "(s mod MS_PER_DAY) div 60000 + 30 = (s mod MS_PER_DAY + 30 * 60000) div 60000"
    by simp
  also have "\<dots> \<le> (e mod MS_PER_DAY) div 60000"
    using gap ms me by (intro zdiv_mono1) (simp_all add: MIN_SLOT_DURATION_def MS_PER_MINUTE_def)
  finally show ?thesis
    using s0 e0 by (simp add: formatHHmm_def MIN_SLOT_DURATION_def MS_PER_MINUTE_def)
qed

subsection \<open>Merging slots\<close>

lemma mergeLoop_starts:
  "x \<in> set (mergeLoop cur ss) \<Longrightarrow>
     startTime x = startTime cur \<or> (\<exists>s \<in> set ss. startTime x = startTime s)"
proof (induction ss arbitrary: cur)
  case Nil
  then show ?case by simp
next
  case (Cons s ss)
  show ?case
  proof (cases "startTime s \<le> endTime cur")
    case True
    let ?c = "cur\<lparr>endTime := (if endTime s < endTime cur then endTime cur else endTime s),
                    isContinuous := True\<rparr>"
    have "x \<in> set (mergeLoop ?c ss)" using Cons.prems True by simp
    from Cons.IH[OF this] show ?thesis by auto
  next
    case False
    then have "x = cur \<or> x \<in> set (mergeLoop s ss)" using Cons.prems by simp
    then show ?thesis using Cons.IH[of s] by auto
  qed
qed

lemma mergeLoop_hd: "\<exists>c rest. mergeLoop cur ss = c # rest \<and> startTime c = startTime cur"
proof (induction ss arbitrary: cur)
  case Nil
  then show ?case by simp
next
  case (Cons s ss)
  show ?case
  proof (cases "startTime s \<le> endTime cur")
    case True
    let ?c = "cur\<lparr>endTime := (if endTime s < endTime cur then endTime cur else endTime s),
                    isContinuous := True\<rparr>"
    from Cons.IH[of ?c] show ?thesis using True by auto
  next
    case False
    then show ?thesis by simp
  qed
qed

text \<open>On a list sorted by start the loop returns slots that are apart and still sorted.\<close>

lemma mergeLoop_gapped:
  "sorted (map startTime (cur # ss)) \<Longrightarrow>
     gapped (mergeLoop cur ss) \<and> sorted (map startTime (mergeLoop cur ss))"
proof (induction ss arbitrary: cur)
  case Nil
  then show ?case by simp
next
  case (Cons s ss)
  show ?case
  proof (cases "startTime s \<le> endTime cur")
    case True
    let ?c = "cur\<lparr>endTime := (if endTime s < endTime cur then endTime cur else endTime s),
                    isContinuous := True\<rparr>"
    have "sorted (map startTime (?c # ss))" using Cons.prems by auto
    from Cons.IH[OF this] show ?thesis using True by simp
  next
    case False
    have srt: "sorted (map startTime (s # ss))" using Cons.prems by simp
    note ih = Cons.IH[OF srt]
    obtain c rest where cr: "mergeLoop s ss = c # rest" "startTime c = startTime s"
      using mergeLoop_hd by blast
    have lb: "\<forall>x \<in> set (mergeLoop s ss). startTime cur \<le> startTime x"
      using mergeLoop_starts[of _ s ss] Cons.prems by fastforce
    show ?thesis using False ih cr lb by auto
  qed
qed

text \<open>Slots that are apart are left as they are.\<close>

lemma mergeLoop_fix: "gapped (x # xs) \<Longrightarrow> mergeLoop x xs = x # xs"
  by (induction xs arbitrary: x) auto

text \<open>
  Claim C8. \<open>mergeContinuousSlots\<close> is idempotent: for every list of slots, merging
  the merged list gives the merged list again.
\<close>

theorem mergeContinuousSlots_idempotent:
  "mergeContinuousSlots (mergeContinuousSlots xs) = mergeContinuousSlots xs"
proof (cases "sort_key startTime xs")
  case Nil
  then show ?thesis by (simp add: mergeContinuousSlots_def)
next
  case (Cons s ss)
  have "sorted (map startTime (s # ss))"
    using sorted_sort_key[of startTime xs] Cons by simp
  from mergeLoop_gapped[OF this]
  have g: "gapped (mergeLoop s ss)" and st: "sorted (map startTime (mergeLoop s ss))"
    by auto
  obtain c rest where cr: "mergeLoop s ss = c # rest" using mergeLoop_hd by blast
  have "sort_key startTime (mergeLoop s ss) = mergeLoop s ss"
    using st by (rule sort_key_id_if_sorted)
  moreover have "mergeLoop c rest = c # rest" using g cr by (simp add: mergeLoop_fix)
  ultimately show ?thesis using Cons cr by (simp add: mergeContinuousSlots_def)
qed

lemma mergeLoop_long:
  assumes "MIN_SLOT_DURATION \<le> slotMinutes cur"
    and "\<forall>s \<in> set ss. MIN_SLOT_DURATION \<le> slotMinutes s"
    and "x \<in> set (mergeLoop cur ss)"
  shows "MIN_SLOT_DURATION \<le> slotMinutes x"
  using assms
proof (induction ss arbitrary: cur)
  case Nil
  then show ?case by simp
next
  case (Cons s ss)
  show ?case
  proof (cases "startTime s \<le> endTime cur")
    case True
    let ?c = "cur\<lparr>endTime := (if endTime s < endTime cur then endTime cur else endTime s),
                    isContinuous := True\<rparr>"
    have "MIN_SLOT_DURATION \<le> slotMinutes ?c"
      using Cons.prems(1) by (auto simp: slotMinutes_def)
    moreover have "x \<in> set (mergeLoop ?c ss)" using Cons.prems(3) True by simp
    ultimately show ?thesis using Cons.IH[of ?c] Cons.prems(2) by simp
  next
    case False
    then have "x = cur \<or> x \<in> set (mergeLoop s ss)" using Cons.prems(3) by simp
    then show ?thesis using Cons.IH[of s] Cons.prems by auto
  qed
qed

lemma mergeContinuousSlots_long:
  assumes "\<forall>s \<in> set xs. MIN_SLOT_DURATION \<le> slotMinutes s"
    and "x \<in> set (mergeContinuousSlots xs)"
  shows "MIN_SLOT_DURATION \<le> slotMinutes x"
proof (cases "sort_key startTime xs")
  case Nil
  then show ?thesis using assms(2) by (simp add: mergeContinuousSlots_def)
next
  case (Cons s ss)
  have "set (s # ss) = set xs" using Cons set_sort[of startTime xs] by simp
  then have "MIN_SLOT_DURATION \<le> slotMinutes s"
    "\<forall>y \<in> set ss. MIN_SLOT_DURATION \<le> slotMinutes y"
    using assms(1) by auto
  moreover have "x \<in> set (mergeLoop s ss)"
    using assms(2) Cons by (simp add: mergeContinuousSlots_def)
  ultimately show ?thesis by (rule mergeLoop_long)
qed

subsection \<open>The sweep of one range\<close>

lemma gapBefore_inWindow:
  assumes "lo \<le> cur" and "x \<in> set (gapBefore hi cur ev)"
  shows "inWindow lo hi x"
proof -
  define slotEnd where "slotEnd = (if istart ev < hi then istart ev else hi)"
  have x: "x = mkSlot cur slotEnd" and d: "MIN_SLOT_DURATION \<le> diffMinutes slotEnd cur"
    using assms(2) by (auto simp: gapBefore_def Let_def slotEnd_def split: if_splits)
  have "cur + MIN_SLOT_DURATION * MS_PER_MINUTE \<le> slotEnd"
    using d by (rule diffMinutes_ge)
  moreover have "slotEnd \<le> hi" by (simp add: slotEnd_def)
  ultimately show ?thesis
    unfolding inWindow_def using assms(1) x by blast
qed

lemma advance_ge: "cur \<le> advance cur ev"
  by (simp add: advance_def)

text \<open>\<open>currentTime\<close> never moves back, and every slot pushed lies inside the range.\<close>

lemma sweepEvents_inv:
  "lo \<le> cur \<Longrightarrow> sweepEvents hi cur evs = (t, ss) \<Longrightarrow>
     cur \<le> t \<and> (\<forall>x \<in> set ss. inWindow lo hi x)"
proof (induction hi cur evs arbitrary: t ss rule: sweepEvents.induct)
  case (1 rangeEnd currentTime)
  then show ?case by simp
next
  case (2 rangeEnd currentTime ev evs)
  note g = gapBefore_inWindow[OF "2.prems"(1), of _ rangeEnd ev]
  note c = advance_ge[of currentTime ev]
  show ?case
  proof (cases "iend ev < currentTime")
    case True
    then show ?thesis using 2 by simp
  next
    case notBefore: False
    show ?thesis
    proof (cases "rangeEnd < istart ev")
      case True
      then show ?thesis using 2 notBefore by simp
    next
      case notAfter: False
      show ?thesis
      proof (cases "rangeEnd < advance currentTime ev")
        case True
        then show ?thesis using "2.prems"(2) notBefore notAfter g c by auto
      next
        case False
        obtain t' rest where r: "sweepEvents rangeEnd (advance currentTime ev) evs = (t', rest)"
          by force
        have eq: "t = t'" "ss = gapBefore rangeEnd currentTime ev @ rest"
          using "2.prems"(2) notBefore notAfter False r by simp_all
        have "lo \<le> advance currentTime ev" using c "2.prems"(1) by simp
        from "2.IH"(2)[OF notBefore notAfter False this r]
        show ?thesis using eq g c by auto
      qed
    qed
  qed
qed

lemma rangeSlots_inWindow:
  assumes "x \<in> set (rangeSlots evs rng)"
  shows "inWindow (istart rng) (iend rng) x"
proof -
  obtain t ss where sw: "sweepEvents (iend rng) (istart rng) evs = (t, ss)" by force
  from sweepEvents_inv[OF order_refl sw]
  have t: "istart rng \<le> t" and ss: "\<forall>x \<in> set ss. inWindow (istart rng) (iend rng) x"
    by auto
  have "inWindow (istart rng) (iend rng) (mkSlot t (iend rng))"
    if "MIN_SLOT_DURATION \<le> diffMinutes (iend rng) t"
    unfolding inWindow_def using diffMinutes_ge[OF that] t by blast
  then show ?thesis using assms sw ss by (auto simp: rangeSlots_def split: if_splits)
qed

text \<open>Both ends of a range lie on the day of the date.\<close>

lemma atClock_day:
  assumes "validTime c"
  shows "dayOf (atClock d c) = dayOf d"
proof -
  have "int (hour c) \<le> 23" "int (minute c) \<le> 59"
    using assms by (simp_all add: validTime_def)
  then have b: "0 \<le> int (hour c) * 3600000 + int (minute c) * 60000"
    "int (hour c) * 3600000 + int (minute c) * 60000 < 86400000"
    by simp_all
  have "(dayOf d * 86400000 + (int (hour c) * 3600000 + int (minute c) * 60000)) div 86400000
          = dayOf d"
    using b by (simp add: div_pos_pos_trivial)
  then show ?thesis
    by (simp add: atClock_def startOfDay_def dayOf_def MS_PER_DAY_def MS_PER_HOUR_def
        MS_PER_MINUTE_def add.assoc)
qed

lemma atHour_day:
  assumes h: "0 \<le> h" "h \<le> 23"
  shows "dayOf (atHour d h) = dayOf d"
proof -
  have m: "0 \<le> d mod 1000" "d mod 1000 < 1000" by simp_all
  have b: "0 \<le> h * 3600000 + d mod 1000" "h * 3600000 + d mod 1000 < 86400000"
    using h m by linarith+
  have "(dayOf d * 86400000 + (h * 3600000 + d mod 1000)) div 86400000 = dayOf d"
    using b by (simp add: div_pos_pos_trivial)
  then show ?thesis
    by (simp add: atHour_def startOfDay_def dayOf_def MS_PER_DAY_def MS_PER_HOUR_def add.assoc)
qed

lemma slotRanges_day:
  assumes "\<forall>s \<in> set sl. validTime (slot_start s) \<and> validTime (slot_end s)"
    and "rng \<in> set (slotRanges d sl)"
  shows "dayOf (istart rng) = dayOf (iend rng)"
  using assms
  by (auto simp: slotRanges_def atClock_day atHour_day CORE_TIME_START_HOUR_def
      CORE_TIME_END_HOUR_def split: if_splits)

lemma inWindow_long:
  assumes "inWindow lo hi x" and "dayOf lo = dayOf hi"
  shows "MIN_SLOT_DURATION \<le> slotMinutes x"
proof -
  obtain s e where "x = mkSlot s e" "lo \<le> s" "s + MIN_SLOT_DURATION * MS_PER_MINUTE \<le> e"
    "e \<le> hi"
    using assms(1) unfolding inWindow_def by blast
  then show ?thesis
    using formatHHmm_gap[OF assms(2), of s e] by (simp add: slotMinutes_def mkSlot_def)
qed

lemma calculateDayAvailableSlots_long:
  assumes "\<forall>s \<in> set sl. validTime (slot_start s) \<and> validTime (slot_end s)"
    and "calculateDayAvailableSlots now events d sl = Inr daySlots"
    and "x \<in> set daySlots"
  shows "MIN_SLOT_DURATION \<le> slotMinutes x"
proof -
  obtain evs where "dayEvents now events d = Inr evs"
    and ds: "daySlots = concat (map (rangeSlots evs) (slotRanges d sl))"
    using assms(2) by (auto simp: calculateDayAvailableSlots_def split: sum.splits)
  then obtain rng where "rng \<in> set (slotRanges d sl)" "x \<in> set (rangeSlots evs rng)"
    using assms(3) by auto
  then show ?thesis
    using rangeSlots_inWindow slotRanges_day[OF assms(1)] inWindow_long by blast
qed

lemma mapResult_member:
  "mapResult f xs = Inr ys \<Longrightarrow> y \<in> set ys \<Longrightarrow> \<exists>x \<in> set xs. f x = Inr y"
proof (induction xs arbitrary: ys)
  case Nil
  then show ?case by simp
next
  case (Cons x xs)
  obtain z where z: "f x = Inr z" using Cons.prems(1) by (auto split: sum.splits)
  obtain zs where zs: "mapResult f xs = Inr zs" using Cons.prems(1) z by (auto split: sum.splits)
  have "ys = z # zs" using Cons.prems(1) z zs by simp
  then have "y = z \<or> y \<in> set zs" using Cons.prems(2) by simp
  then show ?case using z Cons.IH[OF zs] by auto
qed

text \<open>
  Claim C1, amended. Every slot of every day result returned by
  \<open>calculateAvailableSlots\<close> (the slots that survive \<open>calculateDayAvailableSlots\<close> and
  the merge) lasts at least \<open>MIN_SLOT_DURATION\<close> = 30 minutes, for every event list,
  date range and list of preferred time slots whose start and end are clock times
  (\<open>validTime\<close>: an hour up to 23 and a minute up to 59, the time format of the
  validation rules and the only times the form offers), in a local zone of fixed
  offset.
\<close>

theorem calculateAvailableSlots_min_duration:
  assumes valid: "\<forall>s \<in> set timeSlots. validTime (slot_start s) \<and> validTime (slot_end s)"
    and res: "calculateAvailableSlots now events startDate endDate timeSlots = Inr results"
  shows "\<forall>day \<in> set results. \<forall>x \<in> set (slots day). MIN_SLOT_DURATION \<le> slotMinutes x"
proof (intro ballI)
  fix day x
  assume day: "day \<in> set results" and x: "x \<in> set (slots day)"
  obtain rs where
    m: "mapResult (dayResultFor now events timeSlots) (targetDates startDate endDate timeSlots) = Inr rs"
    and r: "results = concat rs"
    using res by (auto simp: calculateAvailableSlots_def split: sum.splits)
  from day r obtain r1 where r1: "r1 \<in> set rs" "day \<in> set r1" by auto
  from mapResult_member[OF m r1(1)]
  obtain d where d: "dayResultFor now events timeSlots d = Inr r1" by blast
  define sl where "sl = filter (\<lambda>s. slot_date s = dayOf d) timeSlots"
  have v: "\<forall>s \<in> set sl. validTime (slot_start s) \<and> validTime (slot_end s)"
    using valid by (simp add: sl_def)
  obtain daySlots where c: "calculateDayAvailableSlots now events d sl = Inr daySlots"
    and s: "slots day = mergeContinuousSlots daySlots"
    using d r1(2) by (auto simp: dayResultFor_def Let_def sl_def split: sum.splits if_splits)
  have "\<forall>y \<in> set daySlots. MIN_SLOT_DURATION \<le> slotMinutes y"
    using calculateDayAvailableSlots_long[OF v c] by blast
  then show "MIN_SLOT_DURATION \<le> slotMinutes x"
    using x s mergeContinuousSlots_long by auto
qed

text \<open>A run of it: an event from 10:30 to 11:00 in the preferred slot 10:00 to 12:00
  leaves the gap 10:00 to 10:10, which is dropped, and the slot 11:20 to 12:00.\<close>

theorem calculateAvailableSlots_min_duration_witness:
  "validTime (slot_start morningSlot) \<and> validTime (slot_end morningSlot)
   \<and> calculateAvailableSlots 0 [timedEvent 19884 630 660] 0 0 [morningSlot]
       = Inr [\<lparr>dr_date = 19884,
               slots = [\<lparr>startTime = 680, endTime = 720, isContinuous = False\<rparr>],
               totalSlots = 1, totalMinutes = 40\<rparr>]
   \<and> MIN_SLOT_DURATION \<le> slotMinutes \<lparr>startTime = 680, endTime = 720, isContinuous = False\<rparr>"
proof -
  have v1: "validTime (slot_start morningSlot)" and v2: "validTime (slot_end morningSlot)"
    by (simp_all add: morningSlot_def validTime_def)
  then have v: "\<forall>s \<in> set [morningSlot]. validTime (slot_start s) \<and> validTime (slot_end s)"
    by simp
  have r: "calculateAvailableSlots 0 [timedEvent 19884 630 660] 0 0 [morningSlot]
       = Inr [\<lparr>dr_date = 19884,
               slots = [\<lparr>startTime = 680, endTime = 720, isContinuous = False\<rparr>],
               totalSlots = 1, totalMinutes = 40\<rparr>]"
    by code_simp
  from calculateAvailableSlots_min_duration[OF v r]
  have m: "MIN_SLOT_DURATION \<le> slotMinutes \<lparr>startTime = 680, endTime = 720, isContinuous = False\<rparr>"
    by simp
  from v1 v2 r m show ?thesis by (intro conjI)
qed

text \<open>
  Claim C1 as it is worded, for every list of preferred time slots, fails. The
  preferred slot 22:00 to 24:00 on
  2024-06-10, with no event: its end is read as midnight of the next day, the gap of
  120 minutes between the two instants is kept, and the slot is written with the clock
  texts 22:00 and 00:00, so that its end minus its start is -1320 minutes, which is
  also the \<open>totalMinutes\<close> the code computes.
\<close>

theorem calculateAvailableSlots_late_window:
  "calculateAvailableSlots 0 [] 0 0 [lateSlot]
     = Inr [\<lparr>dr_date = 19884,
             slots = [\<lparr>startTime = 1320, endTime = 0, isContinuous = False\<rparr>],
             totalSlots = 1, totalMinutes = - 1320\<rparr>]
   \<and> slotMinutes \<lparr>startTime = 1320, endTime = 0, isContinuous = False\<rparr> = - 1320
   \<and> \<not> MIN_SLOT_DURATION \<le> slotMinutes \<lparr>startTime = 1320, endTime = 0, isContinuous = False\<rparr>"
proof -
  have a: "calculateAvailableSlots 0 [] 0 0 [lateSlot]
     = Inr [\<lparr>dr_date = 19884,
             slots = [\<lparr>startTime = 1320, endTime = 0, isContinuous = False\<rparr>],
             totalSlots = 1, totalMinutes = - 1320\<rparr>]"
    by code_simp
  have b: "slotMinutes \<lparr>startTime = 1320, endTime = 0, isContinuous = False\<rparr> = - 1320"
    by (simp add: slotMinutes_def)
  have c: "\<not> MIN_SLOT_DURATION \<le> slotMinutes \<lparr>startTime = 1320, endTime = 0, isContinuous = False\<rparr>"
    by (simp add: slotMinutes_def MIN_SLOT_DURATION_def)
  from a b c show ?thesis by (intro conjI)
qed

subsection \<open>The core-time scenario\<close>

lemma scenario_dayEvents:
  "dayEvents now [timedEvent d 540 600, timedEvent d 840 900] (startOfDay d)
     = Inr [\<lparr>istart = startOfDay d + 520 * MS_PER_MINUTE, iend = startOfDay d + 620 * MS_PER_MINUTE\<rparr>,
            \<lparr>istart = startOfDay d + 820 * MS_PER_MINUTE, iend = startOfDay d + 920 * MS_PER_MINUTE\<rparr>]"
  by (simp add: dayEvents_def onTargetDate_def timedEvent_def dayOf_startOfDay toBusyInterval_def
      parseDateTime_def BUFFER_TIME_MINUTES_def MS_PER_MINUTE_def)

lemma scenario_slotRanges:
  "slotRanges (startOfDay d) []
     = [\<lparr>istart = startOfDay d + 600 * MS_PER_MINUTE, iend = startOfDay d + 1320 * MS_PER_MINUTE\<rparr>]"
  by (simp add: slotRanges_def atHour_def dayOf_startOfDay CORE_TIME_START_HOUR_def
      CORE_TIME_END_HOUR_def MS_PER_HOUR_def MS_PER_MINUTE_def)
     (simp add: startOfDay_def MS_PER_DAY_def)

lemma scenario_daySlots:
  "calculateDayAvailableSlots now [timedEvent d 540 600, timedEvent d 840 900] (startOfDay d) []
     = Inr [\<lparr>startTime = 620, endTime = 820, isContinuous = False\<rparr>,
            \<lparr>startTime = 920, endTime = 1320, isContinuous = False\<rparr>]"
proof -
  have f: "formatHHmm (startOfDay d + 620 * MS_PER_MINUTE) = 620"
    "formatHHmm (startOfDay d + 820 * MS_PER_MINUTE) = 820"
    "formatHHmm (startOfDay d + 920 * MS_PER_MINUTE) = 920"
    "formatHHmm (startOfDay d + 1320 * MS_PER_MINUTE) = 1320"
    by (simp_all add: formatHHmm_startOfDay)
  show ?thesis
    unfolding calculateDayAvailableSlots_def scenario_dayEvents scenario_slotRanges
    by (simp add: rangeSlots_def gapBefore_def advance_def mkSlot_def f diffMinutes_def
        MIN_SLOT_DURATION_def)
       (simp add: MS_PER_MINUTE_def)
qed

lemma generateDateRange_single: "generateDateRange (startOfDay d) (startOfDay d) = [startOfDay d]"
proof -
  have "dayOf (startOfDay d + MS_PER_DAY) \<noteq> dayOf (startOfDay d)"
    by (simp add: dayOf_def startOfDay_def MS_PER_DAY_def)
  moreover have "\<not> startOfDay d + MS_PER_DAY < startOfDay d" by (simp add: MS_PER_DAY_def)
  ultimately have "generateDateRange (startOfDay d + MS_PER_DAY) (startOfDay d) = []"
    by (subst generateDateRange.simps) simp
  then show ?thesis by (subst generateDateRange.simps) simp
qed

text \<open>
  Claim C2. Two timed events 09:00 to 10:00 and 14:00 to 15:00 on one date \<open>d\<close>, the
  buffer of 20 minutes, no preferred time slots and the core time 10:00 to 22:00: the
  busy intervals are 08:40 to 10:20 and 13:40 to 15:20, and the free slots of the date
  are exactly 10:20 to 13:40 and 15:20 to 22:00 (minutes 620 to 820 and 920 to 1320),
  from \<open>calculateDayAvailableSlots\<close> and, merged, in the day result of
  \<open>calculateAvailableSlots\<close>.
\<close>

theorem core_time_scenario:
  "dayEvents now [timedEvent d 540 600, timedEvent d 840 900] (startOfDay d)
     = Inr [\<lparr>istart = startOfDay d + 520 * MS_PER_MINUTE, iend = startOfDay d + 620 * MS_PER_MINUTE\<rparr>,
            \<lparr>istart = startOfDay d + 820 * MS_PER_MINUTE, iend = startOfDay d + 920 * MS_PER_MINUTE\<rparr>]
   \<and> calculateDayAvailableSlots now [timedEvent d 540 600, timedEvent d 840 900] (startOfDay d) []
     = Inr [\<lparr>startTime = 620, endTime = 820, isContinuous = False\<rparr>,
            \<lparr>startTime = 920, endTime = 1320, isContinuous = False\<rparr>]
   \<and> calculateAvailableSlots now [timedEvent d 540 600, timedEvent d 840 900]
        (startOfDay d) (startOfDay d) []
     = Inr [\<lparr>dr_date = d,
             slots = [\<lparr>startTime = 620, endTime = 820, isContinuous = False\<rparr>,
                      \<lparr>startTime = 920, endTime = 1320, isContinuous = False\<rparr>],
             totalSlots = 2, totalMinutes = 600\<rparr>]"
proof -
  have "calculateAvailableSlots now [timedEvent d 540 600, timedEvent d 840 900]
        (startOfDay d) (startOfDay d) []
     = Inr [\<lparr>dr_date = d,
             slots = [\<lparr>startTime = 620, endTime = 820, isContinuous = False\<rparr>,
                      \<lparr>startTime = 920, endTime = 1320, isContinuous = False\<rparr>],
             totalSlots = 2, totalMinutes = 600\<rparr>]"
    by (simp add: calculateAvailableSlots_def targetDates_def generateDateRange_single
        dayResultFor_def scenario_daySlots mergeContinuousSlots_def slotMinutes_def
        dayOf_startOfDay)
  with scenario_dayEvents[of now d] scenario_daySlots[of now d]
  show ?thesis by (intro conjI)
qed

subsection \<open>The dates examined\<close>

text \<open>The date range visits each day from the day of the start to the day of the end
  once, in order.\<close>

lemma generateDateRange_days:
  "map dayOf (generateDateRange s e) = [dayOf s .. dayOf e]"
proof (induction s e rule: generateDateRange.induct)
  case (1 currentDate endDate)
  show ?case
  proof (cases "currentDate < endDate \<or> dayOf currentDate = dayOf endDate")
    case True
    then have le: "dayOf currentDate \<le> dayOf endDate"
      using dayOf_mono[of currentDate endDate] by auto
    have "map dayOf (generateDateRange currentDate endDate)
            = dayOf currentDate # [dayOf currentDate + 1 .. dayOf endDate]"
      using True "1.IH" by (subst generateDateRange.simps) (simp add: dayOf_step)
    also have "\<dots> = [dayOf currentDate .. dayOf endDate]"
      using le by (simp add: upto_rec1)
    finally show ?thesis .
  next
    case False
    then have "endDate \<le> currentDate" "dayOf currentDate \<noteq> dayOf endDate" by auto
    then have "dayOf endDate < dayOf currentDate"
      using dayOf_mono[of endDate currentDate] by simp
    then show ?thesis using False by (subst generateDateRange.simps) simp
  qed
qed

text \<open>The dates of the range, each with the time of day of the start.\<close>

lemma generateDateRange_eq:
  "generateDateRange s e = map (\<lambda>k. s + (k - dayOf s) * MS_PER_DAY) [dayOf s .. dayOf e]"
proof (induction s e rule: generateDateRange.induct)
  case (1 currentDate endDate)
  show ?case
  proof (cases "currentDate < endDate \<or> dayOf currentDate = dayOf endDate")
    case True
    then have le: "dayOf currentDate \<le> dayOf endDate"
      using dayOf_mono[of currentDate endDate] by auto
    have f: "(\<lambda>k. currentDate + MS_PER_DAY + (k - (dayOf currentDate + 1)) * MS_PER_DAY)
               = (\<lambda>k. currentDate + (k - dayOf currentDate) * MS_PER_DAY)"
      by (rule ext) (simp add: algebra_simps)
    have "generateDateRange currentDate endDate
            = currentDate # map (\<lambda>k. currentDate + (k - dayOf currentDate) * MS_PER_DAY)
                               [dayOf currentDate + 1 .. dayOf endDate]"
      using True "1.IH" by (subst generateDateRange.simps) (simp add: dayOf_step f)
    also have "\<dots> = map (\<lambda>k. currentDate + (k - dayOf currentDate) * MS_PER_DAY)
                        (dayOf currentDate # [dayOf currentDate + 1 .. dayOf endDate])"
      by simp
    also have "dayOf currentDate # [dayOf currentDate + 1 .. dayOf endDate]
                 = [dayOf currentDate .. dayOf endDate]"
      using le by (simp add: upto_rec1)
    finally show ?thesis .
  next
    case False
    then have "endDate \<le> currentDate" "dayOf currentDate \<noteq> dayOf endDate" by auto
    then have "dayOf endDate < dayOf currentDate"
      using dayOf_mono[of endDate currentDate] by simp
    then show ?thesis using False by (subst generateDateRange.simps) simp
  qed
qed

lemma dayOf_dateAt: "dayOf (dateAt startDate timeSlots k) = k"
proof -
  have "dayOf (startDate + (k - dayOf startDate) * MS_PER_DAY) = k"
    by (simp add: dayOf_def MS_PER_DAY_def)
  then show ?thesis by (simp add: dateAt_def dayOf_startOfDay)
qed

text \<open>The list \<open>dates\<close> the loop runs over holds the date value of each date to
  examine, once.\<close>

lemma targetDates_eq:
  "\<exists>days. targetDates startDate endDate timeSlots = map (dateAt startDate timeSlots) days
     \<and> set days = datesToExamine startDate endDate timeSlots \<and> distinct days"
proof (cases "timeSlots = []")
  case True
  have "(\<lambda>k. startDate + (k - dayOf startDate) * MS_PER_DAY) = dateAt startDate timeSlots"
    using True by (intro ext) (simp add: dateAt_def)
  then have "targetDates startDate endDate timeSlots
               = map (dateAt startDate timeSlots) [dayOf startDate .. dayOf endDate]"
    using True by (simp add: targetDates_def generateDateRange_eq)
  then show ?thesis
    using True
    by (intro exI[of _ "[dayOf startDate .. dayOf endDate]"]) (simp add: datesToExamine_def)
next
  case False
  have "startOfDay = dateAt startDate timeSlots"
    using False by (intro ext) (simp add: dateAt_def)
  then have "targetDates startDate endDate timeSlots
               = map (dateAt startDate timeSlots) (uniqueDates timeSlots)"
    using False by (simp add: targetDates_def)
  then show ?thesis
    using False
    by (intro exI[of _ "uniqueDates timeSlots"]) (simp add: datesToExamine_def uniqueDates_def)
qed

lemma mapResult_Inr:
  "mapResult f xs = Inr ys \<Longrightarrow> list_all2 (\<lambda>x y. f x = Inr y) xs ys"
proof (induction xs arbitrary: ys)
  case Nil
  then show ?case by simp
next
  case (Cons x xs)
  obtain z where z: "f x = Inr z" using Cons.prems by (auto split: sum.splits)
  obtain zs where zs: "mapResult f xs = Inr zs" using Cons.prems z by (auto split: sum.splits)
  have "ys = z # zs" using Cons.prems z zs by simp
  then show ?case using z Cons.IH[OF zs] by simp
qed

lemma mapResult_Inl:
  "mapResult f xs = Inl err \<Longrightarrow> \<exists>x \<in> set xs. f x = Inl err"
proof (induction xs)
  case Nil
  then show ?case by simp
next
  case (Cons x xs)
  then show ?case by (auto split: sum.splits)
qed

text \<open>The body of the loop, for the date value of day \<open>k\<close>.\<close>

lemma dayResultFor_dateAt:
  "dayResultFor now events timeSlots (dateAt startDate timeSlots k) =
     (case calculateDayAvailableSlots now events (dateAt startDate timeSlots k) (slotsOn timeSlots k) of
        Inl err \<Rightarrow> Inl err
      | Inr daySlots \<Rightarrow>
          (if daySlots = [] then Inr []
           else Inr [\<lparr>dr_date = k, slots = mergeContinuousSlots daySlots,
                      totalSlots = length (mergeContinuousSlots daySlots),
                      totalMinutes = foldl (\<lambda>sum s. sum + slotMinutes s) 0
                                       (mergeContinuousSlots daySlots)\<rparr>]))"
  by (simp add: dayResultFor_def slotsOn_def dayOf_dateAt Let_def split: sum.splits)

text \<open>What the loop pushes, for days answered one by one: a day result for each day that
  has slots, in the order of the days.\<close>

lemma pushed_days:
  assumes "list_all2 (\<lambda>k r. dayResultFor now events timeSlots (dateAt startDate timeSlots k) = Inr r)
             days rs"
  shows "map dr_date (concat rs)
           = filter (\<lambda>k. calculateDayAvailableSlots now events (dateAt startDate timeSlots k)
                            (slotsOn timeSlots k) \<noteq> Inr []) days"
  using assms
proof (induction days rs rule: list_all2_induct)
  case Nil
  then show ?case by simp
next
  case (Cons k days r rs)
  from Cons(1) have "map dr_date r
      = (if calculateDayAvailableSlots now events (dateAt startDate timeSlots k)
               (slotsOn timeSlots k) \<noteq> Inr [] then [k] else [])"
    unfolding dayResultFor_dateAt by (auto split: sum.splits if_splits)
  then show ?case using Cons(3) by simp
qed

lemma pushed_day:
  assumes "list_all2 (\<lambda>k r. dayResultFor now events timeSlots (dateAt startDate timeSlots k) = Inr r)
             days rs"
    and "k \<in> set days"
  shows "\<exists>daySlots.
           calculateDayAvailableSlots now events (dateAt startDate timeSlots k) (slotsOn timeSlots k)
             = Inr daySlots
           \<and> (daySlots \<noteq> [] \<longrightarrow>
                (\<exists>r \<in> set (concat rs). dr_date r = k \<and> slots r = mergeContinuousSlots daySlots))"
proof -
  from assms(2) obtain i where i: "i < length days" "days ! i = k"
    by (auto simp: in_set_conv_nth)
  define r where "r = rs ! i"
  have len: "length days = length rs" using assms(1) by (rule list_all2_lengthD)
  have r: "r \<in> set rs"
    "dayResultFor now events timeSlots (dateAt startDate timeSlots k) = Inr r"
    using list_all2_nthD[OF assms(1) i(1)] i len by (simp_all add: r_def)
  from r(2) obtain daySlots where d:
    "calculateDayAvailableSlots now events (dateAt startDate timeSlots k) (slotsOn timeSlots k)
       = Inr daySlots"
    unfolding dayResultFor_dateAt by (auto split: sum.splits)
  have "\<exists>x \<in> set (concat rs). dr_date x = k \<and> slots x = mergeContinuousSlots daySlots"
    if "daySlots \<noteq> []"
  proof -
    define x where "x = \<lparr>dr_date = k, slots = mergeContinuousSlots daySlots,
                      totalSlots = length (mergeContinuousSlots daySlots),
                      totalMinutes = foldl (\<lambda>sum s. sum + slotMinutes s) 0
                                       (mergeContinuousSlots daySlots)\<rparr>"
    from r(2) d that have "r = [x]"
      unfolding dayResultFor_dateAt x_def by simp
    then have "x \<in> set r" by simp
    then have "x \<in> set (concat rs)" unfolding set_concat using r(1) by blast
    moreover have "dr_date x = k \<and> slots x = mergeContinuousSlots daySlots"
      by (simp add: x_def)
    ultimately show ?thesis by (rule rev_bexI)
  qed
  then show ?thesis using d by blast
qed

text \<open>
  Claim C3. The dates that a call of \<open>calculateAvailableSlots\<close> examines are exactly the
  distinct dates named by the preferred time slots when there are any, and every
  calendar date from the day of \<open>startDate\<close> to the day of \<open>endDate\<close>, both included,
  otherwise. Said of what the call returns: when it returns day results, the slots of
  every such date have been computed without error (with the preferred slots of that
  date); each such date with slots has its day result, holding these slots merged,
  each such date without slots has none, no other date has one, and no date has two.
  When it raises an error, that is the error of computing the slots of one such date.
\<close>

theorem calculateAvailableSlots_target_dates:
  "(case calculateAvailableSlots now events startDate endDate timeSlots of
      Inr results \<Rightarrow>
        (\<forall>k \<in> datesToExamine startDate endDate timeSlots.
           \<exists>daySlots.
             calculateDayAvailableSlots now events (dateAt startDate timeSlots k)
                 (slotsOn timeSlots k) = Inr daySlots
             \<and> (if daySlots = [] then k \<notin> dr_date ` set results
                 else \<exists>r \<in> set results. dr_date r = k \<and> slots r = mergeContinuousSlots daySlots))
        \<and> dr_date ` set results \<subseteq> datesToExamine startDate endDate timeSlots
        \<and> distinct (map dr_date results)
    | Inl err \<Rightarrow>
        (\<exists>k \<in> datesToExamine startDate endDate timeSlots.
           calculateDayAvailableSlots now events (dateAt startDate timeSlots k)
               (slotsOn timeSlots k) = Inl err))"
proof -
  obtain days where t: "targetDates startDate endDate timeSlots = map (dateAt startDate timeSlots) days"
    and s: "set days = datesToExamine startDate endDate timeSlots" and dis: "distinct days"
    using targetDates_eq by blast
  show ?thesis
  proof (cases "calculateAvailableSlots now events startDate endDate timeSlots")
    case (Inl err)
    then have "mapResult (dayResultFor now events timeSlots)
                 (map (dateAt startDate timeSlots) days) = Inl err"
      unfolding calculateAvailableSlots_def t by (auto split: sum.splits)
    from mapResult_Inl[OF this] obtain k where k: "k \<in> set days"
      "dayResultFor now events timeSlots (dateAt startDate timeSlots k) = Inl err"
      by auto
    from k(2) have "calculateDayAvailableSlots now events (dateAt startDate timeSlots k)
               (slotsOn timeSlots k) = Inl err"
      unfolding dayResultFor_dateAt by (auto split: sum.splits if_splits)
    then show ?thesis using Inl k(1) s by auto
  next
    case (Inr results)
    then obtain rs where m: "mapResult (dayResultFor now events timeSlots)
                 (map (dateAt startDate timeSlots) days) = Inr rs"
      and c: "results = concat rs"
      unfolding calculateAvailableSlots_def t by (auto split: sum.splits)
    from mapResult_Inr[OF m]
    have la: "list_all2 (\<lambda>k r. dayResultFor now events timeSlots (dateAt startDate timeSlots k) = Inr r)
             days rs"
      by (simp add: list_all2_map1)
    note pd = pushed_days[OF la, folded c]
    have sub: "dr_date ` set results \<subseteq> datesToExamine startDate endDate timeSlots"
    proof -
      have "dr_date ` set results = set (map dr_date results)" by simp
      also have "\<dots> \<subseteq> set days" unfolding pd by auto
      finally show ?thesis unfolding s .
    qed
    have d: "distinct (map dr_date results)"
      unfolding pd using dis by simp
    have e: "\<exists>daySlots.
             calculateDayAvailableSlots now events (dateAt startDate timeSlots k)
                 (slotsOn timeSlots k) = Inr daySlots
             \<and> (if daySlots = [] then k \<notin> dr_date ` set results
                 else \<exists>r \<in> set results. dr_date r = k \<and> slots r = mergeContinuousSlots daySlots)"
      if "k \<in> datesToExamine startDate endDate timeSlots" for k
    proof -
      from that s have kd: "k \<in> set days" by simp
      from pushed_day[OF la kd, folded c]
      obtain daySlots where ds:
        "calculateDayAvailableSlots now events (dateAt startDate timeSlots k) (slotsOn timeSlots k)
           = Inr daySlots"
        "daySlots \<noteq> [] \<longrightarrow>
           (\<exists>r \<in> set results. dr_date r = k \<and> slots r = mergeContinuousSlots daySlots)"
        by blast
      have "k \<notin> dr_date ` set results" if "daySlots = []"
      proof -
        have "k \<notin> set (map dr_date results)"
          unfolding pd using ds(1) that by simp
        then show ?thesis by simp
      qed
      then show ?thesis using ds by auto
    qed
    from e sub d show ?thesis using Inr by simp
  qed
qed

text \<open>A run of it: no preferred slot, a range from 2024-06-10 (five milliseconds after
  midnight) to 2024-06-11 and an event on the first day; both days are examined and
  each has its day result.\<close>

theorem calculateAvailableSlots_target_dates_witness:
  "calculateAvailableSlots 0 [timedEvent 19884 630 660] (startOfDay 19884 + 5) (startOfDay 19885) []
     = Inr [\<lparr>dr_date = 19884,
             slots = [\<lparr>startTime = 680, endTime = 1320, isContinuous = False\<rparr>],
             totalSlots = 1, totalMinutes = 640\<rparr>,
           \<lparr>dr_date = 19885,
             slots = [\<lparr>startTime = 600, endTime = 1320, isContinuous = False\<rparr>],
             totalSlots = 1, totalMinutes = 720\<rparr>]
   \<and> datesToExamine (startOfDay 19884 + 5) (startOfDay 19885) [] = {19884 .. 19885}
   \<and> 19885 \<in> datesToExamine (startOfDay 19884 + 5) (startOfDay 19885) []
   \<and> calculateDayAvailableSlots 0 [timedEvent 19884 630 660]
         (dateAt (startOfDay 19884 + 5) [] 19885) (slotsOn [] 19885)
       = Inr [\<lparr>startTime = 600, endTime = 1320, isContinuous = False\<rparr>]
   \<and> (\<exists>r \<in> set [\<lparr>dr_date = 19884,
                     slots = [\<lparr>startTime = 680, endTime = 1320, isContinuous = False\<rparr>],
                     totalSlots = 1, totalMinutes = 640\<rparr>,
                   \<lparr>dr_date = 19885,
                     slots = [\<lparr>startTime = 600, endTime = 1320, isContinuous = False\<rparr>],
                     totalSlots = 1, totalMinutes = 720\<rparr>].
          dr_date r = 19885
          \<and> slots r = mergeContinuousSlots [\<lparr>startTime = 600, endTime = 1320, isContinuous = False\<rparr>])"
proof -
  let ?results = "[\<lparr>dr_date = 19884,
                     slots = [\<lparr>startTime = 680, endTime = 1320, isContinuous = False\<rparr>],
                     totalSlots = 1, totalMinutes = 640\<rparr>,
                   \<lparr>dr_date = 19885,
                     slots = [\<lparr>startTime = 600, endTime = 1320, isContinuous = False\<rparr>],
                     totalSlots = 1, totalMinutes = 720\<rparr>]"
  have r: "calculateAvailableSlots 0 [timedEvent 19884 630 660] (startOfDay 19884 + 5)
             (startOfDay 19885) [] = Inr ?results"
    by code_simp
  have d: "datesToExamine (startOfDay 19884 + 5) (startOfDay 19885) [] = {19884 .. 19885}"
    by (simp add: datesToExamine_def dayOf_def startOfDay_def MS_PER_DAY_def)
  have k: "19885 \<in> datesToExamine (startOfDay 19884 + 5) (startOfDay 19885) []"
    unfolding d by simp
  have c: "calculateDayAvailableSlots 0 [timedEvent 19884 630 660]
             (dateAt (startOfDay 19884 + 5) [] 19885) (slotsOn [] 19885)
           = Inr [\<lparr>startTime = 600, endTime = 1320, isContinuous = False\<rparr>]"
    by code_simp
  have "\<forall>k \<in> datesToExamine (startOfDay 19884 + 5) (startOfDay 19885) [].
           \<exists>daySlots.
             calculateDayAvailableSlots 0 [timedEvent 19884 630 660]
                 (dateAt (startOfDay 19884 + 5) [] k) (slotsOn [] k) = Inr daySlots
             \<and> (if daySlots = [] then k \<notin> dr_date ` set ?results
                 else \<exists>r \<in> set ?results. dr_date r = k \<and> slots r = mergeContinuousSlots daySlots)"
    using calculateAvailableSlots_target_dates[where now = 0
        and events = "[timedEvent 19884 630 660]" and startDate = "startOfDay 19884 + 5"
        and endDate = "startOfDay 19885" and timeSlots = "[]"]
    unfolding r sum.case by (rule conjunct1)
  from bspec[OF this k] obtain daySlots where
    ds: "calculateDayAvailableSlots 0 [timedEvent 19884 630 660]
           (dateAt (startOfDay 19884 + 5) [] 19885) (slotsOn [] 19885) = Inr daySlots"
    and i: "if daySlots = [] then 19885 \<notin> dr_date ` set ?results
            else \<exists>r \<in> set ?results. dr_date r = 19885 \<and> slots r = mergeContinuousSlots daySlots"
    by blast
  from ds c have "daySlots = [\<lparr>startTime = 600, endTime = 1320, isContinuous = False\<rparr>]"
    by simp
  with i have x: "\<exists>r \<in> set ?results. dr_date r = 19885
      \<and> slots r = mergeContinuousSlots [\<lparr>startTime = 600, endTime = 1320, isContinuous = False\<rparr>]"
    by simp
  from r d k c x show ?thesis by (intro conjI)
qed

subsection \<open>Events without start or end\<close>

text \<open>An event without \<open>start\<close> does not pass the filter: it has no effect.\<close>

lemma missing_start_ignored:
  "calculateDayAvailableSlots now (filter (\<lambda>e. ev_start e \<noteq> None) events) d sl
     = calculateDayAvailableSlots now events d sl"
proof -
  have "filter (onTargetDate d) (filter (\<lambda>e. ev_start e \<noteq> None) events)
          = filter (onTargetDate d) events"
    by (induction events) (auto simp: onTargetDate_def)
  then show ?thesis by (simp add: calculateDayAvailableSlots_def dayEvents_def)
qed

text \<open>
  Claim C9 (the code departs from it). The claim: the calculation never throws on
  events that miss \<open>start\<close> or \<open>end\<close>; they are left out silently. The code: a timed
  event of the target date that has a \<open>start\<close> and no \<open>end\<close> passes the filter, and the
  map then reads \<open>event.end.dateTime\<close>, which raises a \<open>TypeError\<close> that
  \<open>calculateAvailableSlots\<close> rethrows. Here on 2024-06-10 with that one event.
\<close>

theorem missing_end_raises:
  "calculateAvailableSlots now [noEndEvent] (startOfDay 19884) (startOfDay 19884) []
     = Inl endUndefinedError"
  by (simp add: calculateAvailableSlots_def targetDates_def generateDateRange_single
      dayResultFor_def calculateDayAvailableSlots_def dayEvents_def onTargetDate_def
      toBusyInterval_def dayOf_startOfDay noEndEvent_def)

subsection \<open>The rate limit and the retry loop\<close>

lemma shouldRetry_rateLimit_flag: "\<not> shouldRetry (mkApiError m s r True) a"
  by (simp add: shouldRetry_def mkApiError_def isRateLimited_def)

lemma normalizeError_ApiError: "normalizeError (mkApiError m s r l) = mkApiError m s r l"
  by (simp add: normalizeError_def mkApiError_def)

lemma waitSeconds_pos: "int now < t \<Longrightarrow> 0 < waitSeconds t now"
  by (simp add: waitSeconds_def)

text \<open>
  Claim C4. Whenever \<open>rateLimitResetTime\<close> is set and lies in the future, every call of
  \<open>fetchWithRetry\<close>, for any URL, options and attempt number, fails at once with the
  rate-limit error (status 429, the flag \<open>isRateLimit\<close>) whose message carries the
  remaining wait in seconds; the state is unchanged, \<open>fetch\<close> is not called (the trace
  gains the entry of this call and nothing else), and \<open>shouldRetry\<close> refuses the error
  for every attempt number.
\<close>

theorem rate_limit_blocks_every_request:
  assumes "rateLimitResetTime st = Some t" and "int (nowAtCheck (env attempt)) < t"
  shows "(let err = mkApiError
                      (RATE_LIMIT_EXCEEDED @ '' (''
                         @ decimal (waitSeconds t (nowAtCheck (env attempt))) @ retryableAfterSuffix)
                      (Some 429) None True
          in fetchWithRetry env st u opts attempt
               = (st\<lparr>trace := trace st @ [Attempt u attempt]\<rparr>, Inl err)
             \<and> 0 < waitSeconds t (nowAtCheck (env attempt))
             \<and> (\<forall>k. \<not> shouldRetry err k))"
proof -
  have "t \<noteq> 0" using assms(2) by auto
  then have "checkRateLimit (st\<lparr>trace := trace st @ [Attempt u attempt]\<rparr>) (nowAtCheck (env attempt))
     = Some (mkApiError
               (RATE_LIMIT_EXCEEDED @ '' (''
                  @ decimal (waitSeconds t (nowAtCheck (env attempt))) @ retryableAfterSuffix)
               (Some 429) None True)"
    using assms by (simp add: checkRateLimit_def)
  then have "fetchWithRetry env st u opts attempt
     = (st\<lparr>trace := trace st @ [Attempt u attempt]\<rparr>,
        Inl (mkApiError
               (RATE_LIMIT_EXCEEDED @ '' (''
                  @ decimal (waitSeconds t (nowAtCheck (env attempt))) @ retryableAfterSuffix)
               (Some 429) None True))"
    by (subst fetchWithRetry.simps)
       (simp add: attemptRequest_def shouldRetry_rateLimit_flag normalizeError_ApiError)
  then show ?thesis
    using waitSeconds_pos[OF assms(2)] by (simp add: Let_def shouldRetry_rateLimit_flag)
qed

text \<open>A run of it: the limit lasts until 5000, the clock reads 2000, the request is for
  the events of a calendar; the message says 3 seconds.\<close>

theorem rate_limit_blocks_every_request_witness:
  "rateLimitResetTime limitedState = Some 5000
   \<and> int (nowAtCheck (answering (plainResponse 200) 0)) < 5000
   \<and> fetchWithRetry (answering (plainResponse 200)) limitedState (EventsUrl ''c'' 0 0) noOptions 0
       = (limitedState\<lparr>trace := [Attempt (EventsUrl ''c'' 0 0) 0]\<rparr>,
          Inl (mkApiError (RATE_LIMIT_EXCEEDED @ '' (3'' @ retryableAfterSuffix) (Some 429) None True))"
proof -
  have a: "rateLimitResetTime limitedState = Some 5000"
    by (simp add: limitedState_def)
  have b: "int (nowAtCheck (answering (plainResponse 200) 0)) < 5000"
    by (simp add: answering_def)
  have w: "decimal (waitSeconds 5000 (nowAtCheck (answering (plainResponse 200) 0))) = ''3''"
    by code_simp
  from rate_limit_blocks_every_request[where st = limitedState and t = 5000
      and env = "answering (plainResponse 200)" and attempt = 0
      and u = "EventsUrl ''c'' 0 0" and opts = noOptions, OF a b] a b
  show ?thesis by (simp add: Let_def w limitedState_def)
qed

lemma shouldRetry_iff:
  "shouldRetry error attempt \<longleftrightarrow>
     attempt + 1 < MAX_RETRY_ATTEMPTS \<and>
     (case error of
        NativeError n m \<Rightarrow> True
      | ApiError e \<Rightarrow> \<not> isRateLimited e \<and> \<not> isAuthError e
                       \<and> (\<exists>c. status e = Some c \<and> (500 \<le> c \<or> c = 408)))"
  by (auto simp: shouldRetry_def MAX_RETRY_ATTEMPTS_def isTemporary_def isRateLimited_def
      split: js_error.splits option.splits)

text \<open>An error response whose body is not \<open>null\<close> and whose message, if any, is a text
  or an array raises an \<open>ApiError\<close> that carries the status.\<close>

lemma handleErrorResponse_ApiError:
  assumes "json_result r \<noteq> Inr None"
    and "\<forall>body t s. json_result r = Inr (Some body) \<longrightarrow> errorMessage body \<noteq> Some (OtherValue t s)"
  shows "\<exists>e. snd (handleErrorResponse st now r) = ApiError e \<and> status e = Some (http_status r)"
  using assms
  by (auto simp: handleErrorResponse_def Let_def mkApiError_def mentionsQuota_def
      errorMessage_def emptyObject_def
      split: sum.splits option.splits messageValue.splits)

text \<open>The \<open>ApiError\<close>s made from the statuses 429, 401 and 403 (rate limit,
  authentication, quota) are refused by \<open>shouldRetry\<close>.\<close>

lemma not_retried_statuses:
  assumes "http_status r = 429 \<or> http_status r = 401 \<or> http_status r = 403"
    and "snd (handleErrorResponse st now r) = ApiError e"
  shows "\<not> shouldRetry (ApiError e) attempt"
proof -
  have "status e = Some (http_status r)"
    using assms(2)
    by (auto simp: handleErrorResponse_def Let_def mkApiError_def nullErrorRead_def
        includesNotAFunction_def mentionsQuota_def
        split: sum.splits option.splits messageValue.splits if_splits)
  then show ?thesis
    using assms(1) by (auto simp: shouldRetry_def isRateLimited_def isAuthError_def)
qed

lemma count_simps:
  "countAttempts [] = 0" "countFetches [] = 0"
  "countAttempts (Attempt u k # xs) = Suc (countAttempts xs)"
  "countAttempts (Fetch u # xs) = countAttempts xs"
  "countFetches (Attempt u k # xs) = countFetches xs"
  "countFetches (Fetch u # xs) = Suc (countFetches xs)"
  by (simp_all add: countAttempts_def countFetches_def)

lemma trace_updateRequestCount: "trace (updateRequestCount st u) = trace st"
  by (simp add: updateRequestCount_def Let_def)

lemma trace_parseRateLimitHeaders: "trace (parseRateLimitHeaders st now r) = trace st"
  by (simp add: parseRateLimitHeaders_def split: header.splits)

lemma trace_handleErrorResponse: "trace (fst (handleErrorResponse st now r)) = trace st"
  by (simp add: handleErrorResponse_def Let_def split: option.splits sum.splits)

text \<open>One attempt calls \<open>fetch\<close> at most once.\<close>

lemma attemptRequest_trace:
  "attemptRequest env st u opts = (st', res) \<Longrightarrow>
     trace st' = trace st \<or> trace st' = trace st @ [Fetch u]"
  by (auto simp: attemptRequest_def Let_def trace_updateRequestCount trace_parseRateLimitHeaders
      split: option.splits fetchOutcome.splits if_splits sum.splits prod.splits
      dest: arg_cong[where f = "\<lambda>p. trace (fst p)"] simp: trace_handleErrorResponse)

lemma fetchWithRetry_unfold:
  assumes "attemptRequest (env attempt) (st\<lparr>trace := trace st @ [Attempt u attempt]\<rparr>) u opts
             = (st1, r1)"
  shows "fetchWithRetry env st u opts attempt =
           (case r1 of
              Inr data \<Rightarrow> (st1, Inr data)
            | Inl error \<Rightarrow>
                (if shouldRetry error attempt then fetchWithRetry env st1 u opts (attempt + 1)
                 else (st1, Inl (normalizeError error))))"
  using assms by (subst fetchWithRetry.simps) simp

text \<open>
  From attempt \<open>a\<close> on, the call makes at most \<open>MAX_RETRY_ATTEMPTS - a\<close> attempts (one
  when \<open>a\<close> is already beyond the maximum), each with at most one \<open>fetch\<close>; an error it
  returns is the normalised error of its last attempt, which \<open>shouldRetry\<close> refused.
\<close>

lemma fetchWithRetry_bound:
  "fetchWithRetry env st u opts a = (st', res) \<Longrightarrow>
     \<exists>new. trace st' = trace st @ new
       \<and> countAttempts new \<le> max 1 (MAX_RETRY_ATTEMPTS - a)
       \<and> countFetches new \<le> countAttempts new
       \<and> (\<forall>e. res = Inl e \<longrightarrow>
             (\<exists>k st0 err. a \<le> k \<and> k < max (a + 1) MAX_RETRY_ATTEMPTS
                 \<and> attemptRequest (env k) st0 u opts = (st', Inl err)
                 \<and> \<not> shouldRetry err k \<and> e = normalizeError err))"
proof (induction env st u opts a arbitrary: st' res rule: fetchWithRetry.induct)
  case (1 env st u opts attempt)
  let ?st0 = "st\<lparr>trace := trace st @ [Attempt u attempt]\<rparr>"
  obtain st1 r1 where ar: "attemptRequest (env attempt) ?st0 u opts = (st1, r1)" by force
  note unf = fetchWithRetry_unfold[of env attempt st u opts st1 r1, OF ar]
  from attemptRequest_trace[OF ar]
  have tr: "trace st1 = trace st @ [Attempt u attempt]
            \<or> trace st1 = trace st @ [Attempt u attempt, Fetch u]"
    by auto
  show ?case
  proof (cases r1)
    case (Inr data)
    then have eq: "st' = st1" "res = Inr data" using "1.prems" unf by simp_all
    from tr show ?thesis
    proof
      assume "trace st1 = trace st @ [Attempt u attempt]"
      then show ?thesis using eq
        by (intro exI[of _ "[Attempt u attempt]"]) (simp add: count_simps)
    next
      assume "trace st1 = trace st @ [Attempt u attempt, Fetch u]"
      then show ?thesis using eq
        by (intro exI[of _ "[Attempt u attempt, Fetch u]"]) (simp add: count_simps)
    qed
  next
    case (Inl error)
    show ?thesis
    proof (cases "shouldRetry error attempt")
      case False
      then have eq: "st' = st1" "res = Inl (normalizeError error)"
        using "1.prems" unf Inl by simp_all
      have last: "\<exists>k st0 err. attempt \<le> k \<and> k < max (attempt + 1) MAX_RETRY_ATTEMPTS
                 \<and> attemptRequest (env k) st0 u opts = (st', Inl err)
                 \<and> \<not> shouldRetry err k \<and> normalizeError error = normalizeError err"
        using ar Inl False eq
        by (intro exI[of _ attempt] exI[of _ ?st0] exI[of _ error]) simp
      from tr show ?thesis
      proof
        assume "trace st1 = trace st @ [Attempt u attempt]"
        then show ?thesis using eq last
          by (intro exI[of _ "[Attempt u attempt]"]) (simp add: count_simps)
      next
        assume "trace st1 = trace st @ [Attempt u attempt, Fetch u]"
        then show ?thesis using eq last
          by (intro exI[of _ "[Attempt u attempt, Fetch u]"]) (simp add: count_simps)
      qed
    next
      case True
      then have lt: "attempt + 1 < MAX_RETRY_ATTEMPTS" by (simp add: shouldRetry_iff)
      have rec: "fetchWithRetry env st1 u opts (attempt + 1) = (st', res)"
        using "1.prems" unf Inl True by simp
      from "1.IH"[OF refl ar[symmetric] Inl True rec]
      obtain new where n: "trace st' = trace st1 @ new"
        "countAttempts new \<le> max 1 (MAX_RETRY_ATTEMPTS - (attempt + 1))"
        "countFetches new \<le> countAttempts new"
        "\<forall>e. res = Inl e \<longrightarrow>
             (\<exists>k st0 err. attempt + 1 \<le> k \<and> k < max (attempt + 1 + 1) MAX_RETRY_ATTEMPTS
                 \<and> attemptRequest (env k) st0 u opts = (st', Inl err)
                 \<and> \<not> shouldRetry err k \<and> e = normalizeError err)"
        by blast
      have cnt: "Suc (countAttempts new) \<le> max 1 (MAX_RETRY_ATTEMPTS - attempt)"
        using n(2) lt by simp
      have last: "\<forall>e. res = Inl e \<longrightarrow>
             (\<exists>k st0 err. attempt \<le> k \<and> k < max (attempt + 1) MAX_RETRY_ATTEMPTS
                 \<and> attemptRequest (env k) st0 u opts = (st', Inl err)
                 \<and> \<not> shouldRetry err k \<and> e = normalizeError err)"
      proof (intro allI impI)
        fix e assume "res = Inl e"
        with n(4) obtain k st0 err where k: "attempt + 1 \<le> k"
          "k < max (attempt + 1 + 1) MAX_RETRY_ATTEMPTS"
          "attemptRequest (env k) st0 u opts = (st', Inl err)" "\<not> shouldRetry err k"
          "e = normalizeError err"
          by blast
        have "attempt \<le> k" "k < max (attempt + 1) MAX_RETRY_ATTEMPTS" using k(1,2) lt by simp_all
        then show "\<exists>k st0 err. attempt \<le> k \<and> k < max (attempt + 1) MAX_RETRY_ATTEMPTS
                 \<and> attemptRequest (env k) st0 u opts = (st', Inl err)
                 \<and> \<not> shouldRetry err k \<and> e = normalizeError err"
          using k(3,4,5) by blast
      qed
      from tr show ?thesis
      proof
        assume "trace st1 = trace st @ [Attempt u attempt]"
        then show ?thesis using n(1,3) cnt last
          by (intro exI[of _ "Attempt u attempt # new"]) (simp add: count_simps)
      next
        assume "trace st1 = trace st @ [Attempt u attempt, Fetch u]"
        then show ?thesis using n(1,3) cnt last
          by (intro exI[of _ "Attempt u attempt # Fetch u # new"]) (simp add: count_simps)
      qed
    qed
  qed
qed

text \<open>
  Claim C5. The claim says that an authentication failure (status 401 or 403) is never
  retried. The code retries one: when every attempt is answered by status 401 with the
  body \<open>null\<close>, \<open>handleErrorResponse\<close> raises a \<open>TypeError\<close> on reading
  \<open>errorData.error\<close> instead of the \<open>ApiError\<close> of status 401, \<open>shouldRetry\<close> accepts it
  as it accepts every error that is not an \<open>ApiError\<close>, and the call makes three
  attempts with one \<open>fetch\<close> each before it surfaces the \<open>TypeError\<close>, normalised to an
  \<open>ApiError\<close> without status. With the body \<open>{}\<close> the same status is surfaced after
  one \<open>fetch\<close>, as the claim says.
\<close>

theorem auth_failure_with_null_body_retried:
  "http_status (nullResponse 401) = 401
   \<and> snd (handleErrorResponse freshState 2100 (nullResponse 401)) = nullErrorRead
   \<and> shouldRetry nullErrorRead 0 \<and> shouldRetry nullErrorRead 1
   \<and> trace (fst (fetchWithRetry (answering (nullResponse 401)) freshState CalendarListUrl noOptions 0))
        = [Attempt CalendarListUrl 0, Fetch CalendarListUrl,
           Attempt CalendarListUrl 1, Fetch CalendarListUrl,
           Attempt CalendarListUrl 2, Fetch CalendarListUrl]
   \<and> countFetches
        (trace (fst (fetchWithRetry (answering (nullResponse 401)) freshState CalendarListUrl noOptions 0)))
        = 3
   \<and> snd (fetchWithRetry (answering (nullResponse 401)) freshState CalendarListUrl noOptions 0)
        = Inl (mkApiError ''Cannot read properties of null (reading 'error')'' None None False)
   \<and> trace (fst (fetchWithRetry (answering (plainResponse 401)) freshState CalendarListUrl noOptions 0))
        = [Attempt CalendarListUrl 0, Fetch CalendarListUrl]
   \<and> snd (fetchWithRetry (answering (plainResponse 401)) freshState CalendarListUrl noOptions 0)
        = Inl (mkApiError ''HTTP 401: status'' (Some 401) (Some emptyObject) False)"
proof -
  let ?run = "fetchWithRetry (answering (nullResponse 401)) freshState CalendarListUrl noOptions 0"
  let ?plain = "fetchWithRetry (answering (plainResponse 401)) freshState CalendarListUrl noOptions 0"
  have a: "http_status (nullResponse 401) = 401" by (simp add: nullResponse_def)
  have b: "snd (handleErrorResponse freshState 2100 (nullResponse 401)) = nullErrorRead"
    by (simp add: handleErrorResponse_def nullResponse_def)
  have c: "shouldRetry nullErrorRead 0" "shouldRetry nullErrorRead 1"
    by (simp_all add: shouldRetry_def nullErrorRead_def MAX_RETRY_ATTEMPTS_def)
  have d: "trace (fst ?run)
        = [Attempt CalendarListUrl 0, Fetch CalendarListUrl,
           Attempt CalendarListUrl 1, Fetch CalendarListUrl,
           Attempt CalendarListUrl 2, Fetch CalendarListUrl]"
    by code_simp
  have e: "countFetches (trace (fst ?run)) = 3"
    unfolding d by (simp add: count_simps)
  have f: "snd ?run
        = Inl (mkApiError ''Cannot read properties of null (reading 'error')'' None None False)"
    by code_simp
  have g: "trace (fst ?plain) = [Attempt CalendarListUrl 0, Fetch CalendarListUrl]"
    by code_simp
  have h: "snd ?plain = Inl (mkApiError ''HTTP 401: status'' (Some 401) (Some emptyObject) False)"
    by code_simp
  from a b c d e f g h show ?thesis by (intro conjI)
qed

text \<open>For comparison, a run in which every attempt is answered by status 500: three
  attempts with one \<open>fetch\<close> each, and the error of the last is returned.\<close>

lemma server_error_run:
  "snd (fetchWithRetry (answering (plainResponse 500)) freshState CalendarListUrl noOptions 0)
        = Inl serverError
   \<and> trace (fst (fetchWithRetry (answering (plainResponse 500)) freshState CalendarListUrl noOptions 0))
        = [Attempt CalendarListUrl 0, Fetch CalendarListUrl,
           Attempt CalendarListUrl 1, Fetch CalendarListUrl,
           Attempt CalendarListUrl 2, Fetch CalendarListUrl]"
proof -
  let ?run = "fetchWithRetry (answering (plainResponse 500)) freshState CalendarListUrl noOptions 0"
  have r: "snd ?run = Inl serverError" by code_simp
  have t: "trace (fst ?run)
        = [Attempt CalendarListUrl 0, Fetch CalendarListUrl,
           Attempt CalendarListUrl 1, Fetch CalendarListUrl,
           Attempt CalendarListUrl 2, Fetch CalendarListUrl]"
    by code_simp
  from r t show ?thesis by (intro conjI)
qed

subsection \<open>The backoff delay\<close>

lemma backoffBase_pos: "0 < backoffBase attempt"
  by (simp add: backoffBase_def INITIAL_RETRY_DELAY_MS_def EXPONENTIAL_BACKOFF_MULTIPLIER_def
      MAX_RETRY_DELAY_MS_def)

lemma backoffBase_le: "backoffBase attempt \<le> MAX_RETRY_DELAY_MS"
  by (simp add: backoffBase_def)

lemma calculateBackoffDelay_eq:
  "calculateBackoffDelay attempt r = max (backoffBase attempt * (0.875 + 0.25 * r)) 0"
  by (simp add: calculateBackoffDelay_def backoffBase_def Let_def algebra_simps)

text \<open>
  What the code computes: for a draw \<open>r\<close> in \<open>[0, 1)\<close> the delay is the base times a
  factor in \<open>[0.875, 1.125)\<close>, a jitter of 12.5 percent each way; so it stays inside
  \<open>[0, 1.25 * MAX_RETRY_DELAY_MS]\<close>, and it never comes near \<open>0.75 * base\<close> or
  \<open>1.25 * base\<close>.
\<close>

lemma calculateBackoffDelay_range:
  assumes "0 \<le> r" and "r < 1"
  shows "0.875 * backoffBase attempt \<le> calculateBackoffDelay attempt r
       \<and> calculateBackoffDelay attempt r < 1.125 * backoffBase attempt
       \<and> calculateBackoffDelay attempt r \<le> 1.25 * MAX_RETRY_DELAY_MS"
proof -
  have p: "0 < backoffBase attempt" by (rule backoffBase_pos)
  have "0 \<le> backoffBase attempt * (0.875 + 0.25 * r)" using p assms by simp
  then have e: "calculateBackoffDelay attempt r = backoffBase attempt * (0.875 + 0.25 * r)"
    by (simp add: calculateBackoffDelay_eq)
  have lo: "backoffBase attempt * 0.875 \<le> backoffBase attempt * (0.875 + 0.25 * r)"
    using p assms by (intro mult_left_mono) simp_all
  have hi: "backoffBase attempt * (0.875 + 0.25 * r) < backoffBase attempt * 1.125"
    using p assms by (intro mult_strict_left_mono) simp_all
  have "backoffBase attempt * 1.125 \<le> MAX_RETRY_DELAY_MS * 1.25"
    using backoffBase_le[of attempt] p by (intro mult_mono) simp_all
  then show ?thesis using e lo hi by (simp add: mult.commute)
qed

text \<open>
  Claim C6 (the code departs from it). The claim, and the comment in the code: the
  delay is the base \<open>min(initialDelay * multiplier^attempt, maxDelay)\<close> with a uniform
  jitter of 25 percent each way, so it ranges over \<open>[0.75 * base, 1.25 * base]\<close>. The
  code: the jitter is \<open>delay * 0.25 * (Math.random() - 0.5)\<close>, 12.5 percent each way.
  At attempt 0 the base is 1000, and the lowest draw \<open>Math.random() = 0\<close> gives the
  delay 875, where a jitter of 25 percent would give 750.
\<close>

theorem calculateBackoffDelay_lowest_draw:
  "backoffBase 0 = 1000 \<and> calculateBackoffDelay 0 0 = 875"
  by (simp add: calculateBackoffDelay_def backoffBase_def INITIAL_RETRY_DELAY_MS_def
      EXPONENTIAL_BACKOFF_MULTIPLIER_def MAX_RETRY_DELAY_MS_def Let_def)

subsection \<open>Batches\<close>

lemma slices_concat: "concat (slices i xs) = drop i xs"
proof (induction i xs rule: slices.induct)
  case (1 i requests)
  show ?case
  proof (cases "i < length requests")
    case True
    have d: "drop (i + BATCH_SIZE) requests = drop BATCH_SIZE (drop i requests)"
      by (simp add: add.commute)
    have "concat (slices i requests)
            = take BATCH_SIZE (drop i requests) @ drop (i + BATCH_SIZE) requests"
      using True "1.IH" by (subst slices.simps) simp
    also have "\<dots> = drop i requests"
      unfolding d by (rule append_take_drop_id)
    finally show ?thesis .
  next
    case False
    then show ?thesis by (subst slices.simps) simp
  qed
qed

lemma ceil_step:
  assumes "0 < (m::nat)"
  shows "Suc ((m - 5 + 4) div 5) = (m + 4) div 5"
proof (cases "5 \<le> m")
  case True
  then obtain k where "m = k + 5" using le_Suc_ex by (metis add.commute)
  then show ?thesis by simp
next
  case False
  then have z: "m - 5 = 0" and "5 \<le> m + 4" "m + 4 < 10" using assms by simp_all
  then have "(m + 4) div 5 = 1" by linarith
  then show ?thesis using z by simp
qed

lemma slices_length: "length (slices i xs) = (length xs - i + BATCH_SIZE - 1) div BATCH_SIZE"
proof (induction i xs rule: slices.induct)
  case (1 i requests)
  show ?case
  proof (cases "i < length requests")
    case True
    then have pos: "0 < length requests - i" by simp
    have "length (slices i requests)
            = Suc ((length requests - (i + BATCH_SIZE) + BATCH_SIZE - 1) div BATCH_SIZE)"
      using True "1.IH" by (subst slices.simps) simp
    also have "\<dots> = Suc ((length requests - i - 5 + 4) div 5)"
      by (simp add: BATCH_SIZE_def)
    also have "\<dots> = (length requests - i + 4) div 5"
      using pos by (rule ceil_step)
    finally show ?thesis by (simp add: BATCH_SIZE_def)
  next
    case False
    then show ?thesis by (subst slices.simps) (simp add: BATCH_SIZE_def)
  qed
qed

lemma slices_sizes: "b \<in> set (slices i xs) \<Longrightarrow> b \<noteq> [] \<and> length b \<le> BATCH_SIZE"
proof (induction i xs rule: slices.induct)
  case (1 i requests)
  show ?case
  proof (cases "i < length requests")
    case True
    then have "b = take BATCH_SIZE (drop i requests) \<or> b \<in> set (slices (i + BATCH_SIZE) requests)"
      using "1.prems" by (subst (asm) slices.simps) simp
    then show ?thesis
    proof
      assume b: "b = take BATCH_SIZE (drop i requests)"
      have "drop i requests \<noteq> []" using True by simp
      then show ?thesis using b by (simp add: BATCH_SIZE_def)
    next
      assume "b \<in> set (slices (i + BATCH_SIZE) requests)"
      then show ?thesis using "1.IH"[OF True] by simp
    qed
  next
    case False
    then show ?thesis using "1.prems" by (subst (asm) slices.simps) simp
  qed
qed

text \<open>Every chunk but the last is full.\<close>

lemma slices_full: "b \<in> set (butlast (slices i xs)) \<Longrightarrow> length b = BATCH_SIZE"
proof (induction i xs rule: slices.induct)
  case (1 i requests)
  show ?case
  proof (cases "i < length requests")
    case True
    note unf = slices.simps[of i requests]
    show ?thesis
    proof (cases "slices (i + BATCH_SIZE) requests = []")
      case True
      then show ?thesis using "1.prems" \<open>i < length requests\<close> unf by simp
    next
      case False
      then have more: "i + BATCH_SIZE < length requests"
        by (subst (asm) slices.simps) (simp split: if_splits)
      from False "1.prems" \<open>i < length requests\<close> unf
      have "b = take BATCH_SIZE (drop i requests)
            \<or> b \<in> set (butlast (slices (i + BATCH_SIZE) requests))"
        by simp
      then show ?thesis
      proof
        assume "b = take BATCH_SIZE (drop i requests)"
        then show ?thesis using more by simp
      next
        assume "b \<in> set (butlast (slices (i + BATCH_SIZE) requests))"
        then show ?thesis using "1.IH"[OF \<open>i < length requests\<close>] by simp
      qed
    qed
  next
    case False
    then show ?thesis using "1.prems" by (subst (asm) slices.simps) simp
  qed
qed

text \<open>The logged executor does what the executor does, and writes it down.\<close>

lemma submitAll_logged:
  "submitAll ex w reqs = (w1, ps) \<Longrightarrow>
     submitAll (logged ex) (w, l) reqs = ((w1, l @ map2 Submitted reqs ps), ps)
     \<and> length ps = length reqs"
proof (induction reqs arbitrary: w l w1 ps)
  case Nil
  then show ?case by simp
next
  case (Cons req reqs)
  obtain wa p where s: "submit ex w (req_url req) (req_options req) = (wa, p)" by force
  obtain wb qs where r: "submitAll ex wa reqs = (wb, qs)" by force
  have eq: "w1 = wb" "ps = p # qs" using Cons.prems s r by simp_all
  have ls: "submit (logged ex) (w, l) (req_url req) (req_options req)
              = ((wa, l @ [Submitted req p]), p)"
    using s by (simp add: logged_def)
  from Cons.IH[OF r, of "l @ [Submitted req p]"]
  have ih: "submitAll (logged ex) (wa, l @ [Submitted req p]) reqs
              = ((wb, (l @ [Submitted req p]) @ map2 Submitted reqs qs), qs)"
    and len: "length qs = length reqs"
    by simp_all
  show ?case using ls ih len eq by simp
qed

lemma runBatch_logged:
  assumes "runBatch ex w batch = (w2, rs)"
  shows "\<exists>ps outs.
           runBatch (logged ex) (w, l) batch
             = ((w2, l @ map2 Submitted batch ps @ [Awaited (zip ps outs)]), rs)
           \<and> length ps = length batch \<and> length outs = length batch
           \<and> rs = map captured outs"
proof -
  obtain w1 ps where s: "submitAll ex w batch = (w1, ps)" by force
  have w2: "w2 = awaitAll ex w1 ps"
    using assms s by (auto simp: runBatch_def Let_def)
  have rs: "rs = map (\<lambda>p. captured (settled ex w2 p)) ps"
    using assms s by (auto simp: runBatch_def Let_def)
  from submitAll_logged[OF s, of l]
  have ls: "submitAll (logged ex) (w, l) batch = ((w1, l @ map2 Submitted batch ps), ps)"
    and len: "length ps = length batch"
    by simp_all
  have z: "zip ps (map (settled ex w2) ps) = map (\<lambda>p. (p, settled ex w2 p)) ps"
    by (induction ps) simp_all
  have aw: "awaitAll (logged ex) (w1, l @ map2 Submitted batch ps) ps
              = (w2, l @ map2 Submitted batch ps @ [Awaited (zip ps (map (settled ex w2) ps))])"
    using w2 z by (simp add: logged_def Let_def)
  have st: "\<And>l' p. settled (logged ex) (w2, l') p = settled ex w2 p"
    by (simp add: logged_def)
  have run: "runBatch (logged ex) (w, l) batch
      = ((w2, l @ map2 Submitted batch ps @ [Awaited (zip ps (map (settled ex w2) ps))]), rs)"
    using ls aw st rs by (simp add: runBatch_def Let_def)
  show ?thesis
    using run len rs
    by (intro exI[of _ ps] exI[of _ "map (settled ex w2) ps"]) simp
qed

lemma runBatches_logged:
  "runBatches ex sleep w batches = (w', rs) \<Longrightarrow>
     \<exists>runs. runBatches (logged ex) (loggedSleep sleep) (w, l) batches
              = ((w', l @ chunkLog runs), rs)
       \<and> map fst runs = batches
       \<and> (\<forall>(chunk, ps, outs) \<in> set runs. length ps = length chunk \<and> length outs = length chunk)
       \<and> rs = map captured (concat (map (\<lambda>(chunk, ps, outs). outs) runs))"
proof (induction batches arbitrary: w l w' rs)
  case Nil
  then show ?case by (intro exI[of _ "[]"]) simp
next
  case (Cons batch rest)
  obtain w1 br where rb: "runBatch ex w batch = (w1, br)" by force
  define w2 where "w2 = (if rest \<noteq> [] then sleep w1 1000 else w1)"
  obtain w3 rr where rbs: "runBatches ex sleep w2 rest = (w3, rr)" by force
  have eq: "w' = w3" "rs = br @ rr"
    using Cons.prems rb rbs by (simp_all add: w2_def)
  from runBatch_logged[OF rb, of l]
  obtain ps outs where lb: "runBatch (logged ex) (w, l) batch
             = ((w1, l @ map2 Submitted batch ps @ [Awaited (zip ps outs)]), br)"
    and len: "length ps = length batch" "length outs = length batch"
    and br: "br = map captured outs"
    by blast
  let ?l1 = "l @ map2 Submitted batch ps @ [Awaited (zip ps outs)]"
  show ?case
  proof (cases "rest = []")
    case True
    then have "w3 = w1" "rr = []" using rbs by (simp_all add: w2_def)
    then have "runBatches (logged ex) (loggedSleep sleep) (w, l) (batch # rest)
                 = ((w', l @ chunkLog [(batch, ps, outs)]), rs)"
      using lb eq True by simp
    then show ?thesis
      using len br eq \<open>rr = []\<close> True
      by (intro exI[of _ "[(batch, ps, outs)]"]) simp
  next
    case False
    then have w2: "w2 = sleep w1 1000" by (simp add: w2_def)
    let ?l2 = "?l1 @ [Slept 1000]"
    from Cons.IH[OF rbs, of ?l2]
    obtain runs where lr: "runBatches (logged ex) (loggedSleep sleep) (w2, ?l2) rest
              = ((w3, ?l2 @ chunkLog runs), rr)"
      and m: "map fst runs = rest"
      and ln: "\<forall>(chunk, ps, outs) \<in> set runs. length ps = length chunk \<and> length outs = length chunk"
      and rr: "rr = map captured (concat (map (\<lambda>(chunk, ps, outs). outs) runs))"
      by blast
    from m False obtain run runs' where runs: "runs = run # runs'" by (cases runs) auto
    have sl: "loggedSleep sleep (w1, ?l1) 1000 = (w2, ?l2)"
      by (simp add: loggedSleep_def w2)
    have "runBatches (logged ex) (loggedSleep sleep) (w, l) (batch # rest)
            = ((w3, ?l2 @ chunkLog runs), br @ rr)"
      using lb sl lr False by simp
    moreover have "?l2 @ chunkLog runs = l @ chunkLog ((batch, ps, outs) # runs)"
      unfolding runs by simp
    ultimately have run: "runBatches (logged ex) (loggedSleep sleep) (w, l) (batch # rest)
            = ((w', l @ chunkLog ((batch, ps, outs) # runs)), rs)"
      using eq by simp
    show ?thesis
      using run m ln rr len br eq
      by (intro exI[of _ "(batch, ps, outs) # runs"]) simp
  qed
qed

text \<open>
  Claim C7. For every list of \<open>M\<close> requests, every executor, however it runs the
  requests in flight, and every world, \<open>batchRequest\<close> works in
  \<open>ceil (M / BATCH_SIZE)\<close> consecutive chunks of the list, none empty, none longer than
  \<open>BATCH_SIZE\<close> = 5 and all but the last full: the run observed through the logged
  executor submits the requests of a chunk in order, then awaits the promises of
  exactly these requests together, then pauses if a chunk follows, and so on chunk
  after chunk; it reaches the same world and returns the same results as the run that
  is not observed. The result array has \<open>M\<close> entries, and the \<open>i\<close>-th is what the promise
  of the \<open>i\<close>-th request settled to at the wait of its chunk: the data, or \<open>{ error }\<close>
  when it was rejected. A rejection therefore keeps no request, of the same or of a
  later chunk, from being submitted and awaited.
\<close>

theorem batchRequest_chunks_and_slots:
  assumes "batchRequest ex sleep w requests = (w', results)"
  shows "\<exists>runs.
           batchRequest (logged ex) (loggedSleep sleep) (w, []) requests
              = ((w', chunkLog runs), results)
           \<and> concat (map fst runs) = requests
           \<and> length runs = (length requests + BATCH_SIZE - 1) div BATCH_SIZE
           \<and> (\<forall>(chunk, ps, outs) \<in> set runs.
                 chunk \<noteq> [] \<and> length chunk \<le> BATCH_SIZE
                 \<and> length ps = length chunk \<and> length outs = length chunk)
           \<and> (\<forall>(chunk, ps, outs) \<in> set (butlast runs). length chunk = BATCH_SIZE)
           \<and> results = map captured (concat (map (\<lambda>(chunk, ps, outs). outs) runs))
           \<and> length results = length requests"
proof -
  from assms have "runBatches ex sleep w (slices 0 requests) = (w', results)"
    by (simp add: batchRequest_def)
  from runBatches_logged[OF this, of "[]"]
  obtain runs where lr: "runBatches (logged ex) (loggedSleep sleep) (w, []) (slices 0 requests)
              = ((w', chunkLog runs), results)"
    and m: "map fst runs = slices 0 requests"
    and ln: "\<forall>(chunk, ps, outs) \<in> set runs. length ps = length chunk \<and> length outs = length chunk"
    and rs: "results = map captured (concat (map (\<lambda>(chunk, ps, outs). outs) runs))"
    by auto
  have a: "batchRequest (logged ex) (loggedSleep sleep) (w, []) requests
              = ((w', chunkLog runs), results)"
    using lr by (simp add: batchRequest_def)
  have b: "concat (map fst runs) = requests"
    unfolding m by (simp add: slices_concat)
  have c: "length runs = (length requests + BATCH_SIZE - 1) div BATCH_SIZE"
    using arg_cong[OF m, of length] by (simp add: slices_length)
  have d: "\<forall>(chunk, ps, outs) \<in> set runs.
                 chunk \<noteq> [] \<and> length chunk \<le> BATCH_SIZE
                 \<and> length ps = length chunk \<and> length outs = length chunk"
  proof (intro ballI, clarify)
    fix chunk ps outs assume r: "(chunk, ps, outs) \<in> set runs"
    then have "chunk \<in> set (map fst runs)" by force
    then have "chunk \<in> set (slices 0 requests)" unfolding m .
    from slices_sizes[OF this] ln r
    show "chunk \<noteq> [] \<and> length chunk \<le> BATCH_SIZE
                 \<and> length ps = length chunk \<and> length outs = length chunk"
      by auto
  qed
  have e: "\<forall>(chunk, ps, outs) \<in> set (butlast runs). length chunk = BATCH_SIZE"
  proof (intro ballI, clarify)
    fix chunk ps outs assume "(chunk, ps, outs) \<in> set (butlast runs)"
    then have "chunk \<in> set (map fst (butlast runs))" by force
    then have "chunk \<in> set (butlast (slices 0 requests))"
      unfolding m[symmetric] by (simp add: map_butlast)
    then show "length chunk = BATCH_SIZE" by (rule slices_full)
  qed
  have "length (concat (map (\<lambda>(chunk, ps, outs). outs) runs)) = length (concat (map fst runs))"
    using ln by (induction runs) auto
  then have f: "length results = length requests"
    using rs b by simp
  from a b c d e rs f show ?thesis
    by (intro exI[of _ runs] conjI)
qed

text \<open>A run of it: the seven requests on the executor whose requests in flight affect
  each other. The run has two chunks, of five and of two requests, with one pause
  between them; the requests are answered in the order 4, 3, 2, 1, 0, 6, 5 of their
  promises, the second request fails and the first and the last two are rejected
  after it, and every result stands in the slot of its request.\<close>

theorem batchRequest_chunks_and_slots_witness:
  "snd (batchRequest crowdedExec idle noFlights sevenRequests) = crowdedResults
   \<and> map fst (answers (fst (batchRequest crowdedExec idle noFlights sevenRequests)))
        = [4, 3, 2, 1, 0, 6, 5]
   \<and> batchRequest (logged crowdedExec) (loggedSleep idle) (noFlights, []) sevenRequests
        = ((fst (batchRequest crowdedExec idle noFlights sevenRequests),
            chunkLog [(take 5 sevenRequests, [0, 1, 2, 3, 4], take 5 crowdedOutcomes),
                      (drop 5 sevenRequests, [5, 6], drop 5 crowdedOutcomes)]),
           crowdedResults)
   \<and> (\<exists>runs. batchRequest (logged crowdedExec) (loggedSleep idle) (noFlights, []) sevenRequests
                 = ((fst (batchRequest crowdedExec idle noFlights sevenRequests), chunkLog runs),
                    crowdedResults)
          \<and> concat (map fst runs) = sevenRequests
          \<and> length runs = 2
          \<and> crowdedResults = map captured (concat (map (\<lambda>(chunk, ps, outs). outs) runs)))
   \<and> length crowdedResults = length sevenRequests"
proof -
  let ?w = "fst (batchRequest crowdedExec idle noFlights sevenRequests)"
  have s: "snd (batchRequest crowdedExec idle noFlights sevenRequests) = crowdedResults"
    by code_simp
  have o: "map fst (answers ?w) = [4, 3, 2, 1, 0, 6, 5]"
    by code_simp
  have l: "batchRequest (logged crowdedExec) (loggedSleep idle) (noFlights, []) sevenRequests
        = ((?w,
            chunkLog [(take 5 sevenRequests, [0, 1, 2, 3, 4], take 5 crowdedOutcomes),
                      (drop 5 sevenRequests, [5, 6], drop 5 crowdedOutcomes)]),
           crowdedResults)"
    by code_simp
  have c: "(length sevenRequests + BATCH_SIZE - 1) div BATCH_SIZE = 2"
    by (simp add: sevenRequests_def BATCH_SIZE_def)
  have e: "batchRequest crowdedExec idle noFlights sevenRequests = (?w, crowdedResults)"
    using s by (simp add: prod_eq_iff)
  from batchRequest_chunks_and_slots[OF e]
  obtain runs where r:
    "batchRequest (logged crowdedExec) (loggedSleep idle) (noFlights, []) sevenRequests
       = ((?w, chunkLog runs), crowdedResults)"
    "concat (map fst runs) = sevenRequests"
    "length runs = (length sevenRequests + BATCH_SIZE - 1) div BATCH_SIZE"
    "crowdedResults = map captured (concat (map (\<lambda>(chunk, ps, outs). outs) runs))"
    "length crowdedResults = length sevenRequests"
    by blast
  have x: "\<exists>runs. batchRequest (logged crowdedExec) (loggedSleep idle) (noFlights, []) sevenRequests
                 = ((?w, chunkLog runs), crowdedResults)
          \<and> concat (map fst runs) = sevenRequests
          \<and> length runs = 2
          \<and> crowdedResults = map captured (concat (map (\<lambda>(chunk, ps, outs). outs) runs))"
    using r(1,2,4) r(3)[unfolded c] by (intro exI[of _ runs] conjI)
  from s o l x r(5) show ?thesis by (intro conjI)
qed

subsection \<open>The events fetched\<close>

text \<open>
  Claim C10. The events that \<open>fetchAllCalendarEvents\<close> returns all have a \<open>start\<close> with a
  \<open>dateTime\<close>: every all-day event (a \<open>start\<close> with \<open>date\<close> and no \<open>dateTime\<close>) and every
  event without \<open>start\<close> is removed from the union of the responses, whatever the
  calendars answer.
\<close>

theorem fetchAllCalendarEvents_timed_only:
  assumes "fetchAllCalendarEvents exec sleep w accessToken startDate endDate = (w', Inr evs)"
  shows "\<forall>ev \<in> set evs. \<exists>s dt. ev_start ev = Some s \<and> dateTime s = Some dt"
proof -
  have "\<forall>ev \<in> set evs. hasStartDateTime ev"
    using assms
    by (auto simp: fetchAllCalendarEvents_def Let_def
        split: prod.splits sum.splits option.splits if_splits)
  then show ?thesis
    by (auto simp: hasStartDateTime_def split: option.splits)
qed

text \<open>A run of it: two calendars; the first answers with a timed event, an all-day
  event and an item without start, the second fails; the timed event is returned.\<close>

theorem fetchAllCalendarEvents_timed_only_witness:
  "fetchAllCalendarEvents sampleExec noSleep 0 ''token'' 0 0 = (3, Inr [timedEvent 19884 540 600])
   \<and> (\<exists>s dt. ev_start (timedEvent 19884 540 600) = Some s \<and> dateTime s = Some dt)"
proof -
  have e: "fetchAllCalendarEvents sampleExec noSleep 0 ''token'' 0 0
             = (3, Inr [timedEvent 19884 540 600])"
    by code_simp
  from fetchAllCalendarEvents_timed_only[OF e]
  have "\<exists>s dt. ev_start (timedEvent 19884 540 600) = Some s \<and> dateTime s = Some dt"
    by simp
  with e show ?thesis by (intro conjI)
qed

end
